theory Spec2Isabelle
  imports Complex_Main "HOL-Library.Product_Lexorder" "HOL-Library.Sublist" "HOL-Library.Multiset"
begin

section \<open>The power-controlled FCFS scheduler of \<^verbatim>\<open>powerControlScheduler.py\<close>\<close>

text \<open>
  The development embeds the class \<^verbatim>\<open>PowerControlScheduler\<close> of
  \<^verbatim>\<open>src/power_control/powerControlScheduler.py\<close>. Every method becomes a function
  from the scheduler object to an error or the updated object. Python floats (simulation
  time, energy, power) are read as reals; the scenarios below only use values on which
  float and real arithmetic agree. \<^verbatim>\<open>print\<close> calls are dropped.
\<close>

subsection \<open>Data\<close>

type_synonym node_id = nat

text \<open>
  A job of the engine: \<^verbatim>\<open>job.id\<close>, \<^verbatim>\<open>job.requested_resources\<close> and
  \<^verbatim>\<open>job.allocation\<close> (\<^verbatim>\<open>None\<close> until the job is placed, then a \<^verbatim>\<open>ProcSet\<close>,
  kept as the ascending list of its node ids). The class defines no \<^verbatim>\<open>__eq__\<close>, so Python's
  \<^verbatim>\<open>in\<close> and \<^verbatim>\<open>remove\<close> compare object identity; the engine keeps one object per
  job id, and identity is modelled as equality of \<open>job_id\<close>. An event carries the
  job as the engine holds it: a completion event names the job with the allocation the
  scheduler gave it.
\<close>

record job =
  job_id :: nat
  requested_resources :: int
  allocation :: "node_id list option"

datatype error =
    AssertionError string
  | ValueError string
  | AttributeError
  | KeyError
  | TypeError

datatype bs_call =
    reject_jobs "job list"
  | execute_jobs "job list"
  | wake_me_up_at real

text \<open>
  The engine handle \<^verbatim>\<open>self.bs\<close>: the clock \<^verbatim>\<open>bs.time()\<close>, the cluster size
  \<^verbatim>\<open>bs.nb_resources\<close>, and the requests the scheduler has sent to it, oldest first.
\<close>

record batsim =
  bs_time :: real
  nb_resources :: int
  bs_calls :: "bs_call list"

definition bs_request :: "bs_call \<Rightarrow> batsim \<Rightarrow> batsim" where
  "bs_request c b = b\<lparr>bs_calls := bs_calls b @ [c]\<rparr>"

subsection \<open>The power controller\<close>

datatype power_state =
    COMPUTING
  | IDLE
  | SWITCHING_TO_SLEEP
  | SLEEPING
  | WAKING_FROM_SLEEP
  | POWERING_OFF
  | POWERED_OFF
  | POWERING_ON

record node =
  node_state :: power_state
  job_count :: int

datatype pc_call =
    GetAvailableNodes_call
  | GetNodeJobCount_call node_id
  | AddJobToNode_call node_id
  | RemoveJobFromNode_call node_id
  | ExecutePowerActions_call
  | HandleStateTransitionComplete_call node_id power_state
  | RecordSystemState_call real "job list" "job list" real

text \<open>
  The controller object: the node registry as an association list in ascending node id,
  and the calls it has received, oldest first.
\<close>

record NodePowerController =
  nodes :: "(node_id \<times> node) list"
  pc_calls :: "pc_call list"

definition pc_called :: "pc_call \<Rightarrow> NodePowerController \<Rightarrow> NodePowerController" where
  "pc_called c pc = pc\<lparr>pc_calls := pc_calls pc @ [c]\<rparr>"

definition update_node :: "node_id \<Rightarrow> (node \<Rightarrow> node) \<Rightarrow> (node_id \<times> node) list \<Rightarrow> (node_id \<times> node) list" where
  "update_node n f ns = map (\<lambda>(i, nd). if i = n then (i, f nd) else (i, nd)) ns"

text \<open>
  Modelled from the spec: the constructor \<^verbatim>\<open>NodePowerController(batsim_scheduler=bs)\<close> of
  the module \<^verbatim>\<open>powerControl\<close>, which is not among the sources. Section 8 of the spec
  starts its scenarios from a cluster whose nodes \<open>0 .. nb_resources - 1\<close> are all idle.
\<close>

definition new_NodePowerController :: "batsim \<Rightarrow> NodePowerController" where
  "new_NodePowerController b =
     \<lparr>nodes = map (\<lambda>i. (i, \<lparr>node_state = IDLE, job_count = 0\<rparr>)) [0 ..< nat (nb_resources b)],
      pc_calls = []\<rparr>"

text \<open>
  Modelled from the spec: \<^verbatim>\<open>GetAvailableNodes\<close> of the missing module \<^verbatim>\<open>powerControl\<close>
  ``returns nodes in COMPUTING or IDLE only''.
\<close>

definition available :: "node \<Rightarrow> bool" where
  "available nd = (node_state nd = COMPUTING \<or> node_state nd = IDLE)"

definition GetAvailableNodes :: "NodePowerController \<Rightarrow> node_id list \<times> NodePowerController" where
  "GetAvailableNodes pc =
     (map fst (filter (\<lambda>(i, nd). available nd) (nodes pc)), pc_called GetAvailableNodes_call pc)"

text \<open>
  Modelled from the spec: \<^verbatim>\<open>GetNodeJobCount\<close> of the missing module \<^verbatim>\<open>powerControl\<close>
  ``returns current job\_count''. A node id outside the registry has no count.
\<close>

definition GetNodeJobCount :: "NodePowerController \<Rightarrow> node_id \<Rightarrow> int option \<times> NodePowerController" where
  "GetNodeJobCount pc n =
     (map_option job_count (map_of (nodes pc) n), pc_called (GetNodeJobCount_call n) pc)"

text \<open>
  Modelled from the spec: \<^verbatim>\<open>AddJobToNode\<close> of the missing module \<^verbatim>\<open>powerControl\<close>
  ``transitions IDLE to COMPUTING (or increments load if already computing)''; the job
  count grows by one in both cases.
\<close>

definition AddJobToNode :: "node_id \<Rightarrow> NodePowerController \<Rightarrow> NodePowerController" where
  "AddJobToNode n pc =
     pc_called (AddJobToNode_call n)
       (pc\<lparr>nodes := update_node n
          (\<lambda>nd. \<lparr>node_state = (if node_state nd = IDLE then COMPUTING else node_state nd),
                 job_count = job_count nd + 1\<rparr>) (nodes pc)\<rparr>)"

text \<open>
  Modelled from the spec: \<^verbatim>\<open>RemoveJobFromNode\<close> of the missing module \<^verbatim>\<open>powerControl\<close>
  ``decrements load and transitions COMPUTING to IDLE when load reaches zero''.
\<close>

definition RemoveJobFromNode :: "node_id \<Rightarrow> NodePowerController \<Rightarrow> NodePowerController" where
  "RemoveJobFromNode n pc =
     pc_called (RemoveJobFromNode_call n)
       (pc\<lparr>nodes := update_node n
          (\<lambda>nd. \<lparr>node_state =
                   (if node_state nd = COMPUTING \<and> job_count nd - 1 = 0 then IDLE else node_state nd),
                 job_count = job_count nd - 1\<rparr>) (nodes pc)\<rparr>)"

text \<open>
  Modelled from the spec: \<^verbatim>\<open>ExecutePowerActions\<close> of the missing module
  \<^verbatim>\<open>powerControl\<close> ``applies a pluggable policy''; the policy is a parameter that
  rewrites the node registry.
\<close>

type_synonym power_policy = "(node_id \<times> node) list \<Rightarrow> (node_id \<times> node) list"

definition ExecutePowerActions :: "power_policy \<Rightarrow> NodePowerController \<Rightarrow> NodePowerController" where
  "ExecutePowerActions policy pc =
     pc_called ExecutePowerActions_call (pc\<lparr>nodes := policy (nodes pc)\<rparr>)"

text \<open>
  Modelled from the spec: \<^verbatim>\<open>HandleStateTransitionComplete\<close> of the missing module
  \<^verbatim>\<open>powerControl\<close> ``resolves a pending transition; fails (logged, non-fatal) if the
  node was not in a matching pending state''.
\<close>

fun pending_target :: "power_state \<Rightarrow> power_state option" where
  "pending_target SWITCHING_TO_SLEEP = Some SLEEPING"
| "pending_target WAKING_FROM_SLEEP = Some IDLE"
| "pending_target POWERING_OFF = Some POWERED_OFF"
| "pending_target POWERING_ON = Some IDLE"
| "pending_target _ = None"

definition HandleStateTransitionComplete ::
  "node_id \<Rightarrow> power_state \<Rightarrow> NodePowerController \<Rightarrow> NodePowerController" where
  "HandleStateTransitionComplete n new_state pc =
     pc_called (HandleStateTransitionComplete_call n new_state)
       (pc\<lparr>nodes := update_node n
          (\<lambda>nd. if pending_target (node_state nd) = Some new_state
                then nd\<lparr>node_state := new_state\<rparr> else nd) (nodes pc)\<rparr>)"

text \<open>
  Modelled from the spec: \<^verbatim>\<open>RecordSystemState\<close> of the missing module \<^verbatim>\<open>powerControl\<close>
  ``emits one snapshot row''; the row is the logged call with its arguments.
\<close>

definition RecordSystemState ::
  "real \<Rightarrow> job list \<Rightarrow> job list \<Rightarrow> real \<Rightarrow> NodePowerController \<Rightarrow> NodePowerController" where
  "RecordSystemState t running waiting watts pc =
     pc_called (RecordSystemState_call t running waiting watts) pc"

subsection \<open>The scheduler object\<close>

record PowerControlScheduler =
  bs :: batsim
  power_controller :: "NodePowerController option"
  power_check_interval :: real
  record_interval :: real
  last_power_check :: real
  last_energy :: real
  last_energy_time :: real
  current_power :: real
  waiting_jobs :: "job list"
  running_jobs :: "job list"
  simulation_started :: bool

text \<open>\<^verbatim>\<open>__init__\<close>, on the engine handle the base class stores.\<close>

definition init :: "batsim \<Rightarrow> PowerControlScheduler" where
  "init b =
     \<lparr>bs = b,
      power_controller = None,
      power_check_interval = 1800,
      record_interval = 60,
      last_power_check = 0,
      last_energy = 0,
      last_energy_time = 0,
      current_power = 0,
      waiting_jobs = [],
      running_jobs = [],
      simulation_started = False\<rparr>"

subsection \<open>Python list helpers\<close>

text \<open>The slice \<^verbatim>\<open>xs[:k]\<close>; a negative \<open>k\<close> counts from the end.\<close>

definition slice_to :: "'a list \<Rightarrow> int \<Rightarrow> 'a list" where
  "slice_to xs k =
     (if k \<ge> 0 then take (nat k) xs else take (nat (int (length xs) + k)) xs)"

text \<open>\<^verbatim>\<open>ProcSet(*xs)\<close>: the set of the ids, iterated in ascending order.\<close>

definition ProcSet :: "node_id list \<Rightarrow> node_id list" where
  "ProcSet xs = sort (remdups xs)"

text \<open>\<^verbatim>\<open>job in jobs\<close> and \<^verbatim>\<open>jobs.remove(job)\<close> (the first occurrence).\<close>

definition job_in :: "job \<Rightarrow> job list \<Rightarrow> bool" where
  "job_in j js = (job_id j \<in> set (map job_id js))"

fun remove_job :: "job \<Rightarrow> job list \<Rightarrow> job list" where
  "remove_job j [] = []"
| "remove_job j (x # xs) = (if job_id x = job_id j then xs else x # remove_job j xs)"

subsection \<open>The placement pass\<close>

text \<open>
  The state of the loop of \<^verbatim>\<open>try_schedule_jobs\<close>: the scheduler object, the controller
  object \<^verbatim>\<open>self.power_controller\<close> refers to (written back when the pass ends), and the
  locals \<^verbatim>\<open>node_loads\<close>, \<^verbatim>\<open>remaining_nodes\<close> and \<^verbatim>\<open>jobs_to_execute\<close>.
\<close>

record pass =
  self :: PowerControlScheduler
  pc :: NodePowerController
  node_loads :: "node_id \<rightharpoonup> int"
  remaining_nodes :: "node_id list"
  jobs_to_execute :: "job list"

text \<open>
  The dictionary comprehension
  \<^verbatim>\<open>{node: GetNodeJobCount(node) for node in available_nodes}\<close>.
\<close>

fun build_node_loads ::
  "node_id list \<Rightarrow> NodePowerController \<Rightarrow> (node_id \<rightharpoonup> int) \<Rightarrow> error + ((node_id \<rightharpoonup> int) \<times> NodePowerController)" where
  "build_node_loads [] c m = Inr (m, c)"
| "build_node_loads (n # ns) c m =
     (case GetNodeJobCount c n of
        (None, c') \<Rightarrow> Inl KeyError
      | (Some k, c') \<Rightarrow> build_node_loads ns c' (m(n \<mapsto> k)))"

text \<open>The sort key \<^verbatim>\<open>lambda n: (node_loads[n], n)\<close>, on a node that has a load.\<close>

definition load_key :: "(node_id \<rightharpoonup> int) \<Rightarrow> node_id \<Rightarrow> int \<times> node_id" where
  "load_key loads n = (case loads n of Some k \<Rightarrow> (k, n) | None \<Rightarrow> (0, n))"

text \<open>
  \<^verbatim>\<open>sorted(remaining_nodes, key=...)[:requested]\<close>; Python's \<^verbatim>\<open>sorted\<close> is stable, as
  \<open>sort_key\<close> is.
\<close>

definition select_nodes :: "(node_id \<rightharpoonup> int) \<Rightarrow> node_id list \<Rightarrow> int \<Rightarrow> node_id list" where
  "select_nodes loads remaining requested =
     slice_to (sort_key (load_key loads) remaining) requested"

text \<open>\<^verbatim>\<open>node_loads[node] += 1\<close> for each selected node (each has a load).\<close>

definition bump_load :: "node_id \<Rightarrow> (node_id \<rightharpoonup> int) \<Rightarrow> (node_id \<rightharpoonup> int)" where
  "bump_load n loads = (case loads n of Some k \<Rightarrow> loads(n \<mapsto> k + 1) | None \<Rightarrow> loads)"

text \<open>
  One iteration of the loop. Evaluating the sort key raises \<^verbatim>\<open>KeyError\<close> when a node of
  the pool has no entry in \<^verbatim>\<open>node_loads\<close>.
\<close>

definition schedule_job :: "pass \<Rightarrow> job \<Rightarrow> error + pass" where
  "schedule_job l j =
     (if requested_resources j \<le> int (length (remaining_nodes l)) then
        (if \<exists>n \<in> set (remaining_nodes l). node_loads l n = None then Inl KeyError
         else
           (let selected_nodes = select_nodes (node_loads l) (remaining_nodes l) (requested_resources j);
                j' = j\<lparr>allocation := Some (ProcSet selected_nodes)\<rparr>
            in Inr (l\<lparr>pc := fold AddJobToNode selected_nodes (pc l),
                      node_loads := fold bump_load selected_nodes (node_loads l),
                      remaining_nodes := filter (\<lambda>n. n \<notin> set selected_nodes) (remaining_nodes l),
                      jobs_to_execute := jobs_to_execute l @ [j'],
                      self := (self l)\<lparr>running_jobs := running_jobs (self l) @ [j']\<rparr>\<rparr>)))
      else
        Inr (l\<lparr>self := (self l)\<lparr>waiting_jobs := waiting_jobs (self l) @ [j]\<rparr>\<rparr>))"

fun schedule_loop :: "pass \<Rightarrow> job list \<Rightarrow> error + pass" where
  "schedule_loop l [] = Inr l"
| "schedule_loop l (j # js) =
     (case schedule_job l j of Inl e \<Rightarrow> Inl e | Inr l' \<Rightarrow> schedule_loop l' js)"

text \<open>The end of the pass: the batch goes to the engine when it is not empty.\<close>

definition finish_pass :: "pass \<Rightarrow> PowerControlScheduler" where
  "finish_pass l =
     (self l)\<lparr>power_controller := Some (pc l),
              bs := (if jobs_to_execute l \<noteq> []
                     then bs_request (execute_jobs (jobs_to_execute l)) (bs (self l))
                     else bs (self l))\<rparr>"

definition try_schedule_jobs :: "PowerControlScheduler \<Rightarrow> error + PowerControlScheduler" where
  "try_schedule_jobs s =
     (if waiting_jobs s = [] then Inr s
      else
        (case power_controller s of
           None \<Rightarrow> Inl AttributeError
         | Some c \<Rightarrow>
             (case GetAvailableNodes c of
                (available_nodes, c1) \<Rightarrow>
                  if available_nodes = [] then Inl (AssertionError ''No available nodes'')
                  else
                    (case build_node_loads available_nodes c1 Map.empty of
                       Inl e \<Rightarrow> Inl e
                     | Inr (loads, c2) \<Rightarrow>
                         (case schedule_loop
                                 \<lparr>self = s\<lparr>waiting_jobs := []\<rparr>, pc = c2, node_loads = loads,
                                  remaining_nodes = available_nodes, jobs_to_execute = []\<rparr>
                                 (waiting_jobs s) of
                            Inl e \<Rightarrow> Inl e
                          | Inr l \<Rightarrow> Inr (finish_pass l))))))"

subsection \<open>Event handlers\<close>

definition onSimulationBegins :: "PowerControlScheduler \<Rightarrow> PowerControlScheduler" where
  "onSimulationBegins s =
     s\<lparr>power_controller := Some (new_NodePowerController (bs s)),
       last_power_check := bs_time (bs s),
       simulation_started := False\<rparr>"

definition schedule_next_record :: "PowerControlScheduler \<Rightarrow> PowerControlScheduler" where
  "schedule_next_record s =
     (let next_check = bs_time (bs s) + record_interval s
      in s\<lparr>bs := bs_request (wake_me_up_at next_check) (bs s)\<rparr>)"

definition onRequestedCall :: "power_policy \<Rightarrow> PowerControlScheduler \<Rightarrow> error + PowerControlScheduler" where
  "onRequestedCall policy s =
     (let current_time = bs_time (bs s) in
      case power_controller s of
        None \<Rightarrow> Inl AttributeError
      | Some c \<Rightarrow>
          (let s1 = (if current_time \<ge> last_power_check s + power_check_interval s
                     then s\<lparr>power_controller := Some (ExecutePowerActions policy c),
                            last_power_check := current_time\<rparr>
                     else s);
               s2 = s1\<lparr>power_controller :=
                          map_option (RecordSystemState current_time (running_jobs s1)
                                        (waiting_jobs s1) (current_power s1))
                            (power_controller s1)\<rparr>
           in if simulation_started s2 \<and> \<not> (running_jobs s2 \<noteq> [] \<or> waiting_jobs s2 \<noteq> [])
              then Inr s2
              else Inr (schedule_next_record s2)))"

definition onJobSubmission :: "PowerControlScheduler \<Rightarrow> job \<Rightarrow> error + PowerControlScheduler" where
  "onJobSubmission s j =
     (let s1 = s\<lparr>simulation_started := True\<rparr> in
      if requested_resources j > nb_resources (bs s1)
      then Inr (s1\<lparr>bs := bs_request (reject_jobs [j]) (bs s1)\<rparr>)
      else try_schedule_jobs (s1\<lparr>waiting_jobs := waiting_jobs s1 @ [j]\<rparr>))"

text \<open>
  \<^verbatim>\<open>for node in job.allocation: self.power_controller.RemoveJobFromNode(node)\<close>.
  Iterating the \<^verbatim>\<open>None\<close> of a job that was never placed raises \<^verbatim>\<open>TypeError\<close>; the
  controller is only dereferenced when the allocation has a node.
\<close>

definition release_nodes :: "PowerControlScheduler \<Rightarrow> job \<Rightarrow> error + PowerControlScheduler" where
  "release_nodes s j =
     (case allocation j of
        None \<Rightarrow> Inl TypeError
      | Some a \<Rightarrow>
          if a = [] then Inr s
          else
            (case power_controller s of
               None \<Rightarrow> Inl AttributeError
             | Some c \<Rightarrow> Inr (s\<lparr>power_controller := Some (fold RemoveJobFromNode a c)\<rparr>)))"

definition onJobCompletion :: "PowerControlScheduler \<Rightarrow> job \<Rightarrow> error + PowerControlScheduler" where
  "onJobCompletion s j =
     (let s1 = (if job_in j (running_jobs s)
                then s\<lparr>running_jobs := remove_job j (running_jobs s)\<rparr>
                else s)
      in case release_nodes s1 j of
           Inl e \<Rightarrow> Inl e
         | Inr s2 \<Rightarrow> try_schedule_jobs s2)"

definition onJobKilled :: "PowerControlScheduler \<Rightarrow> job \<Rightarrow> error + PowerControlScheduler" where
  "onJobKilled s j = Inl (AssertionError ''onJobKilled is called'')"

definition onMachinePStateChanged ::
  "PowerControlScheduler \<Rightarrow> node_id list \<Rightarrow> power_state \<Rightarrow> error + PowerControlScheduler" where
  "onMachinePStateChanged s machines new_pstate =
     (if machines = [] then Inr s
      else
        (case power_controller s of
           None \<Rightarrow> Inl AttributeError
         | Some c \<Rightarrow>
             Inr (s\<lparr>power_controller :=
                      Some (fold (\<lambda>m. HandleStateTransitionComplete m new_pstate) machines c)\<rparr>)))"

definition onDeadlock :: "PowerControlScheduler \<Rightarrow> error + PowerControlScheduler" where
  "onDeadlock s = Inl (ValueError ''Batsim has reached a deadlock'')"

subsection \<open>Energy meter\<close>

definition onReportEnergyConsumed :: "PowerControlScheduler \<Rightarrow> real \<Rightarrow> PowerControlScheduler" where
  "onReportEnergyConsumed s consumed_energy =
     (let current_time = bs_time (bs s);
          s1 = (if last_energy_time s > 0
                then (let time_diff = current_time - last_energy_time s;
                          energy_diff = consumed_energy - last_energy s
                      in if time_diff > 0 then s\<lparr>current_power := energy_diff / time_diff\<rparr> else s)
                else s)
      in s1\<lparr>last_energy := consumed_energy, last_energy_time := current_time\<rparr>)"

text \<open>The engine advances its clock before it delivers an event.\<close>

definition at_time :: "real \<Rightarrow> PowerControlScheduler \<Rightarrow> PowerControlScheduler" where
  "at_time t s = s\<lparr>bs := (bs s)\<lparr>bs_time := t\<rparr>\<rparr>"

subsection \<open>Runs\<close>

datatype event =
    SimulationBegins
  | RequestedCall
  | JobSubmission job
  | JobCompletion job
  | JobKilled job
  | JobMessage real job string
  | MachinePStateChanged "node_id list" power_state
  | ReportEnergyConsumed real
  | Deadlock
  | SimulationEnds

fun handle :: "power_policy \<Rightarrow> PowerControlScheduler \<Rightarrow> event \<Rightarrow> error + PowerControlScheduler" where
  "handle policy s SimulationBegins = Inr (onSimulationBegins s)"
| "handle policy s RequestedCall = onRequestedCall policy s"
| "handle policy s (JobSubmission j) = onJobSubmission s j"
| "handle policy s (JobCompletion j) = onJobCompletion s j"
| "handle policy s (JobKilled j) = onJobKilled s j"
| "handle policy s (JobMessage t j m) = Inr s"
| "handle policy s (MachinePStateChanged ms p) = onMachinePStateChanged s ms p"
| "handle policy s (ReportEnergyConsumed e) = Inr (onReportEnergyConsumed s e)"
| "handle policy s Deadlock = onDeadlock s"
| "handle policy s SimulationEnds = Inr s"

text \<open>A run delivers timed events in order and stops at the first exception.\<close>

fun run :: "power_policy \<Rightarrow> PowerControlScheduler \<Rightarrow> (real \<times> event) list \<Rightarrow> error + PowerControlScheduler" where
  "run policy s [] = Inr s"
| "run policy s ((t, ev) # evs) =
     (case handle policy (at_time t s) ev of
        Inl e \<Rightarrow> Inl e
      | Inr s' \<Rightarrow> run policy s' evs)"

subsection \<open>Notions used by the properties\<close>

text \<open>The nodes a job holds: none before it is placed.\<close>

definition allocated_nodes :: "job \<Rightarrow> node_id list" where
  "allocated_nodes j = (case allocation j of None \<Rightarrow> [] | Some a \<Rightarrow> a)"

text \<open>Allocations, as lists of node ids, that share no node pairwise.\<close>

fun pairwise_disjoint :: "node_id list list \<Rightarrow> bool" where
  "pairwise_disjoint [] = True"
| "pairwise_disjoint (a # as) = ((\<forall>b \<in> set as. set a \<inter> set b = {}) \<and> pairwise_disjoint as)"

text \<open>
  The placement policy in the spec's words: walk the queue once with the number of free
  nodes; a job that fits takes its nodes, a job that does not is kept, and the walk goes on.
\<close>

fun skip_ahead :: "int \<Rightarrow> job list \<Rightarrow> job list \<times> job list" where
  "skip_ahead free [] = ([], [])"
| "skip_ahead free (j # js) =
     (if requested_resources j \<le> free
      then (j # fst (skip_ahead (free - requested_resources j) js),
            snd (skip_ahead (free - requested_resources j) js))
      else (fst (skip_ahead free js), j # snd (skip_ahead free js)))"

text \<open>A placed job is the queued job with an allocation of exactly the requested number of
  distinct nodes.\<close>

definition placed_as :: "job \<Rightarrow> job \<Rightarrow> bool" where
  "placed_as j j' =
     (\<exists>a. j' = j\<lparr>allocation := Some a\<rparr>
        \<and> int (length a) = requested_resources j
        \<and> distinct a)"

text \<open>
  Whether a job has been submitted since the simulation last began, over the events
  delivered so far (the flag starts as \<open>f\<close>).
\<close>

fun submitted_since_begin :: "bool \<Rightarrow> (real \<times> event) list \<Rightarrow> bool" where
  "submitted_since_begin f [] = f"
| "submitted_since_begin f ((t, ev) # evs) =
     submitted_since_begin
       (case ev of SimulationBegins \<Rightarrow> False | JobSubmission j \<Rightarrow> True | _ \<Rightarrow> f) evs"

subsection \<open>Example data\<close>

text \<open>
  The four-node cluster and the jobs of the scenarios in section 8 of the specification:
  A needs 2 nodes, B needs 3, C needs 1, and D asks for 10 nodes on 4.
\<close>

definition cluster4 :: batsim where
  "cluster4 = \<lparr>bs_time = 0, nb_resources = 4, bs_calls = []\<rparr>"

definition job_A :: job where
  "job_A = \<lparr>job_id = 1, requested_resources = 2, allocation = None\<rparr>"

definition job_B :: job where
  "job_B = \<lparr>job_id = 2, requested_resources = 3, allocation = None\<rparr>"

definition job_C :: job where
  "job_C = \<lparr>job_id = 3, requested_resources = 1, allocation = None\<rparr>"

definition job_D :: job where
  "job_D = \<lparr>job_id = 4, requested_resources = 10, allocation = None\<rparr>"

text \<open>Job A as the engine hands it back on completion, with the allocation it ran on.\<close>

definition done_A :: job where
  "done_A = job_A\<lparr>allocation := Some [0, 1]\<rparr>"

text \<open>A, B and C queued together on the idle cluster, before any pass has run.\<close>

definition queued_ABC :: PowerControlScheduler where
  "queued_ABC = (onSimulationBegins (init cluster4))\<lparr>waiting_jobs := [job_A, job_B, job_C]\<rparr>"

text \<open>The same queue when every node is asleep.\<close>

definition queued_asleep :: PowerControlScheduler where
  "queued_asleep =
     queued_ABC\<lparr>power_controller :=
       Some \<lparr>nodes = map (\<lambda>i. (i, \<lparr>node_state = SLEEPING, job_count = 0\<rparr>)) [0 ..< 4],
             pc_calls = []\<rparr>\<rparr>"



text \<open>
  A loop state with the pool listed as 3, 2, 1, 0, where nodes 0 and 3 carry one job and
  nodes 1 and 2 none.
\<close>

definition pass_example :: pass where
  "pass_example =
     \<lparr>self = init cluster4, pc = new_NodePowerController cluster4,
      node_loads = [0 \<mapsto> 1, 1 \<mapsto> 0, 2 \<mapsto> 0, 3 \<mapsto> 1],
      remaining_nodes = [3, 2, 1, 0], jobs_to_execute = []\<rparr>"

section \<open>Lemmas about the placement pass\<close>

lemma allocated_nodes_Some [simp]: "allocated_nodes (j\<lparr>allocation := Some a\<rparr>) = a"
  by (simp add: allocated_nodes_def)

lemma pairwise_disjoint_append:
  "pairwise_disjoint (xs @ ys) =
     (pairwise_disjoint xs \<and> pairwise_disjoint ys \<and> (\<forall>a \<in> set xs. \<forall>b \<in> set ys. set a \<inter> set b = {}))"
  by (induction xs) auto

lemma set_slice_to: "set (slice_to xs k) \<subseteq> set xs"
  by (auto simp: slice_to_def dest: in_set_takeD)

lemma set_select_nodes: "set (select_nodes loads pool k) \<subseteq> set pool"
  using set_slice_to [of "sort_key (load_key loads) pool" k] by (simp add: select_nodes_def)

lemma set_ProcSet [simp]: "set (ProcSet xs) = set xs"
  by (simp add: ProcSet_def)

lemma schedule_job_fit:
  assumes "requested_resources j \<le> int (length (remaining_nodes l))"
    and "schedule_job l j = Inr l'"
  shows "remaining_nodes l' =
           filter (\<lambda>n. n \<notin> set (select_nodes (node_loads l) (remaining_nodes l) (requested_resources j)))
             (remaining_nodes l)"
    and "jobs_to_execute l' = jobs_to_execute l @
           [j\<lparr>allocation := Some (ProcSet (select_nodes (node_loads l) (remaining_nodes l) (requested_resources j)))\<rparr>]"
    and "running_jobs (self l') = running_jobs (self l) @
           [j\<lparr>allocation := Some (ProcSet (select_nodes (node_loads l) (remaining_nodes l) (requested_resources j)))\<rparr>]"
    and "waiting_jobs (self l') = waiting_jobs (self l)"
    and "node_loads l' = fold bump_load (select_nodes (node_loads l) (remaining_nodes l) (requested_resources j)) (node_loads l)"
    and "pc l' = fold AddJobToNode (select_nodes (node_loads l) (remaining_nodes l) (requested_resources j)) (pc l)"
  using assms by (auto simp: schedule_job_def Let_def split: if_splits)

lemma schedule_job_nofit:
  assumes "\<not> requested_resources j \<le> int (length (remaining_nodes l))"
    and "schedule_job l j = Inr l'"
  shows "l' = l\<lparr>self := (self l)\<lparr>waiting_jobs := waiting_jobs (self l) @ [j]\<rparr>\<rparr>"
  using assms by (auto simp: schedule_job_def Let_def split: if_splits)

lemma schedule_loop_batch:
  assumes "schedule_loop l js = Inr l'"
  shows "\<exists>new. jobs_to_execute l' = jobs_to_execute l @ new
           \<and> running_jobs (self l') = running_jobs (self l) @ new
           \<and> pairwise_disjoint (map allocated_nodes new)
           \<and> (\<forall>j \<in> set new. allocation j \<noteq> None \<and> set (allocated_nodes j) \<subseteq> set (remaining_nodes l) - set (remaining_nodes l'))
           \<and> set (remaining_nodes l') \<subseteq> set (remaining_nodes l)"
  using assms
proof (induction js arbitrary: l)
  case Nil
  then show ?case by simp
next
  case (Cons j js)
  from Cons.prems obtain l1 where l1: "schedule_job l j = Inr l1" and rest: "schedule_loop l1 js = Inr l'"
    by (auto split: sum.splits)
  from Cons.IH [OF rest] obtain new where new:
    "jobs_to_execute l' = jobs_to_execute l1 @ new"
    "running_jobs (self l') = running_jobs (self l1) @ new"
    "pairwise_disjoint (map allocated_nodes new)"
    "\<forall>j \<in> set new. allocation j \<noteq> None \<and> set (allocated_nodes j) \<subseteq> set (remaining_nodes l1) - set (remaining_nodes l')"
    "set (remaining_nodes l') \<subseteq> set (remaining_nodes l1)"
    by blast
  show ?case
  proof (cases "requested_resources j \<le> int (length (remaining_nodes l))")
    case True
    define sel where "sel = select_nodes (node_loads l) (remaining_nodes l) (requested_resources j)"
    note f = schedule_job_fit [OF True l1, folded sel_def]
    have sub: "set sel \<subseteq> set (remaining_nodes l)"
      unfolding sel_def by (rule set_select_nodes)
    have r1: "set (remaining_nodes l1) = set (remaining_nodes l) - set sel"
      using f(1) by auto
    let ?j' = "j\<lparr>allocation := Some (ProcSet sel)\<rparr>"
    have "jobs_to_execute l' = jobs_to_execute l @ (?j' # new)"
      using new(1) f(2) by simp
    moreover have "running_jobs (self l') = running_jobs (self l) @ (?j' # new)"
      using new(2) f(3) by simp
    moreover have "pairwise_disjoint (map allocated_nodes (?j' # new))"
      using new(3) new(4) r1 by auto
    moreover have "\<forall>j \<in> set (?j' # new). allocation j \<noteq> None \<and> set (allocated_nodes j) \<subseteq> set (remaining_nodes l) - set (remaining_nodes l')"
      using new(4) new(5) r1 sub by auto
    moreover have "set (remaining_nodes l') \<subseteq> set (remaining_nodes l)"
      using new(5) r1 by auto
    ultimately show ?thesis by blast
  next
    case False
    note n = schedule_job_nofit [OF False l1]
    have "jobs_to_execute l' = jobs_to_execute l @ new" "running_jobs (self l') = running_jobs (self l) @ new"
      "remaining_nodes l1 = remaining_nodes l"
      using new(1,2) n by simp_all
    then show ?thesis using new(3,4,5) by auto
  qed
qed

lemma GetAvailableNodes_subset: "set (fst (GetAvailableNodes c)) \<subseteq> fst ` set (nodes c)"
  by (auto simp: GetAvailableNodes_def)

lemma build_node_loads_ok:
  "set ns \<subseteq> fst ` set (nodes c) \<Longrightarrow>
     \<exists>m' c'. build_node_loads ns c m = Inr (m', c') \<and> dom m' = dom m \<union> set ns \<and> nodes c' = nodes c"
proof (induction ns arbitrary: c m)
  case Nil
  then show ?case by simp
next
  case (Cons n ns)
  from Cons.prems have "n \<in> fst ` set (nodes c)" by simp
  then obtain nd where nd: "map_of (nodes c) n = Some nd"
    by (metis map_of_eq_None_iff not_None_eq)
  let ?c = "pc_called (GetNodeJobCount_call n) c"
  have "set ns \<subseteq> fst ` set (nodes ?c)"
    using Cons.prems by (simp add: pc_called_def)
  from Cons.IH [OF this, of "m(n \<mapsto> job_count nd)"] obtain m' c' where
    "build_node_loads ns ?c (m(n \<mapsto> job_count nd)) = Inr (m', c')"
    "dom m' = dom (m(n \<mapsto> job_count nd)) \<union> set ns" "nodes c' = nodes ?c"
    by blast
  then show ?case using nd by (auto simp: GetNodeJobCount_def pc_called_def)
qed

lemma dom_bump_load [simp]: "dom (bump_load n m) = dom m"
  by (auto simp: bump_load_def split: option.splits)

lemma dom_fold_bump_load [simp]: "dom (fold bump_load ns m) = dom m"
  by (induction ns arbitrary: m) simp_all

lemma schedule_job_ok:
  assumes "set (remaining_nodes l) \<subseteq> dom (node_loads l)"
  shows "\<exists>l'. schedule_job l j = Inr l' \<and> set (remaining_nodes l') \<subseteq> dom (node_loads l')"
proof (cases "requested_resources j \<le> int (length (remaining_nodes l))")
  case True
  from assms have "\<not> (\<exists>n \<in> set (remaining_nodes l). node_loads l n = None)" by auto
  with True assms show ?thesis
    by (auto simp: schedule_job_def Let_def)
next
  case False
  with assms show ?thesis by (simp add: schedule_job_def)
qed

lemma schedule_loop_ok:
  "set (remaining_nodes l) \<subseteq> dom (node_loads l) \<Longrightarrow> \<exists>l'. schedule_loop l js = Inr l'"
proof (induction js arbitrary: l)
  case Nil
  then show ?case by simp
next
  case (Cons j js)
  from schedule_job_ok [OF Cons.prems, of j] obtain l1 where
    "schedule_job l j = Inr l1" "set (remaining_nodes l1) \<subseteq> dom (node_loads l1)" by blast
  with Cons.IH [of l1] show ?case by auto
qed

lemma try_schedule_jobs_pass:
  assumes "waiting_jobs s \<noteq> []" and "power_controller s = Some c"
    and "fst (GetAvailableNodes c) \<noteq> []"
  shows "\<exists>loads c2 l.
           dom loads = set (fst (GetAvailableNodes c))
         \<and> schedule_loop
              \<lparr>self = s\<lparr>waiting_jobs := []\<rparr>, pc = c2, node_loads = loads,
               remaining_nodes = fst (GetAvailableNodes c), jobs_to_execute = []\<rparr>
              (waiting_jobs s) = Inr l
         \<and> try_schedule_jobs s = Inr (finish_pass l)"
proof -
  obtain av c1 where g: "GetAvailableNodes c = (av, c1)" by (cases "GetAvailableNodes c")
  have "set av \<subseteq> fst ` set (nodes c1)"
    using GetAvailableNodes_subset [of c] g by (auto simp: GetAvailableNodes_def pc_called_def)
  from build_node_loads_ok [OF this, of Map.empty] obtain loads c2 where
    b: "build_node_loads av c1 Map.empty = Inr (loads, c2)" and d: "dom loads = set av"
    by auto
  let ?l0 = "\<lparr>self = s\<lparr>waiting_jobs := []\<rparr>, pc = c2, node_loads = loads,
               remaining_nodes = av, jobs_to_execute = []\<rparr>"
  have "set (remaining_nodes ?l0) \<subseteq> dom (node_loads ?l0)" using d by simp
  from schedule_loop_ok [OF this, of "waiting_jobs s"] obtain l where
    l: "schedule_loop ?l0 (waiting_jobs s) = Inr l" by blast
  have "try_schedule_jobs s = Inr (finish_pass l)"
    using assms g b l by (simp add: try_schedule_jobs_def)
  with d l g show ?thesis by auto
qed

lemma try_schedule_jobs_Inr:
  assumes "try_schedule_jobs s = Inr s'"
  shows "(waiting_jobs s = [] \<and> s' = s)
       \<or> (\<exists>c loads c2 l. waiting_jobs s \<noteq> [] \<and> power_controller s = Some c
            \<and> fst (GetAvailableNodes c) \<noteq> []
            \<and> schedule_loop
                 \<lparr>self = s\<lparr>waiting_jobs := []\<rparr>, pc = c2, node_loads = loads,
                  remaining_nodes = fst (GetAvailableNodes c), jobs_to_execute = []\<rparr>
                 (waiting_jobs s) = Inr l
            \<and> s' = finish_pass l)"
proof (cases "waiting_jobs s = []")
  case True
  with assms show ?thesis by (simp add: try_schedule_jobs_def)
next
  case False
  with assms obtain c where c: "power_controller s = Some c"
    by (auto simp: try_schedule_jobs_def split: option.splits)
  with assms False have av: "fst (GetAvailableNodes c) \<noteq> []"
    by (auto simp: try_schedule_jobs_def split: prod.splits if_splits)
  from try_schedule_jobs_pass [OF False c av] assms False c av show ?thesis
    by auto
qed

lemma slice_to_take: "\<exists>n. slice_to xs k = take n xs"
  by (auto simp: slice_to_def)

lemma length_slice_to: "0 \<le> k \<Longrightarrow> k \<le> int (length xs) \<Longrightarrow> length (slice_to xs k) = nat k"
  by (simp add: slice_to_def)

lemma distinct_slice_to: "distinct xs \<Longrightarrow> distinct (slice_to xs k)"
  by (simp add: slice_to_def)

lemma length_select_nodes:
  "0 \<le> k \<Longrightarrow> k \<le> int (length pool) \<Longrightarrow> length (select_nodes loads pool k) = nat k"
  by (simp add: select_nodes_def length_slice_to)

lemma distinct_select_nodes: "distinct pool \<Longrightarrow> distinct (select_nodes loads pool k)"
  by (simp add: select_nodes_def distinct_slice_to)

lemma distinct_ProcSet [simp]: "distinct (ProcSet xs)"
  by (simp add: ProcSet_def)

lemma length_ProcSet: "distinct xs \<Longrightarrow> length (ProcSet xs) = length xs"
  by (simp add: ProcSet_def)

lemma length_filter_out:
  assumes "distinct xs" and "distinct ys" and "set ys \<subseteq> set xs"
  shows "length (filter (\<lambda>n. n \<notin> set ys) xs) = length xs - length ys"
proof -
  have "distinct (filter (\<lambda>n. n \<notin> set ys) xs)" using assms(1) by simp
  then have "length (filter (\<lambda>n. n \<notin> set ys) xs) = card (set (filter (\<lambda>n. n \<notin> set ys) xs))"
    by (simp only: distinct_card)
  also have "set (filter (\<lambda>n. n \<notin> set ys) xs) = set xs - set ys"
    by auto
  finally have "length (filter (\<lambda>n. n \<notin> set ys) xs) = card (set xs - set ys)" .
  also have "\<dots> = card (set xs) - card (set ys)"
    using assms(3) by (simp add: card_Diff_subset)
  finally show ?thesis using assms(1,2) by (simp add: distinct_card)
qed

lemma subseq_skip_ahead: "subseq (snd (skip_ahead free js)) js"
  by (induction js arbitrary: free) auto

lemma schedule_loop_skip_ahead:
  assumes "distinct (remaining_nodes l)"
    and "set (remaining_nodes l) \<subseteq> dom (node_loads l)"
    and "\<forall>j \<in> set js. 0 \<le> requested_resources j"
  shows "\<exists>l' new. schedule_loop l js = Inr l'
           \<and> waiting_jobs (self l') =
               waiting_jobs (self l) @ snd (skip_ahead (int (length (remaining_nodes l))) js)
           \<and> running_jobs (self l') = running_jobs (self l) @ new
           \<and> list_all2 placed_as (fst (skip_ahead (int (length (remaining_nodes l))) js)) new"
  using assms
proof (induction js arbitrary: l)
  case Nil
  then show ?case by simp
next
  case (Cons j js)
  from schedule_job_ok [OF Cons.prems(2), of j] obtain l1 where
    l1: "schedule_job l j = Inr l1" and dom1: "set (remaining_nodes l1) \<subseteq> dom (node_loads l1)"
    by blast
  have nonneg: "\<forall>j \<in> set js. 0 \<le> requested_resources j" and k0: "0 \<le> requested_resources j"
    using Cons.prems(3) by simp_all
  show ?case
  proof (cases "requested_resources j \<le> int (length (remaining_nodes l))")
    case True
    define sel where "sel = select_nodes (node_loads l) (remaining_nodes l) (requested_resources j)"
    note f = schedule_job_fit [OF True l1, folded sel_def]
    have len: "length sel = nat (requested_resources j)"
      unfolding sel_def using k0 True by (rule length_select_nodes)
    have dis: "distinct sel"
      unfolding sel_def using Cons.prems(1) by (rule distinct_select_nodes)
    have sub: "set sel \<subseteq> set (remaining_nodes l)"
      unfolding sel_def by (rule set_select_nodes)
    have d1: "distinct (remaining_nodes l1)" using f(1) Cons.prems(1) by simp
    have "length (remaining_nodes l1) = length (remaining_nodes l) - length sel"
      using f(1) length_filter_out [OF Cons.prems(1) dis sub] by simp
    then have free: "int (length (remaining_nodes l1)) =
        int (length (remaining_nodes l)) - requested_resources j"
      using len k0 True by simp
    from Cons.IH [OF d1 dom1 nonneg] obtain l' new where
      r: "schedule_loop l1 js = Inr l'"
      and w: "waiting_jobs (self l') =
                waiting_jobs (self l1) @ snd (skip_ahead (int (length (remaining_nodes l1))) js)"
      and n: "running_jobs (self l') = running_jobs (self l1) @ new"
      and p: "list_all2 placed_as (fst (skip_ahead (int (length (remaining_nodes l1))) js)) new"
      by blast
    let ?j' = "j\<lparr>allocation := Some (ProcSet sel)\<rparr>"
    have pj: "placed_as j ?j'"
      unfolding placed_as_def using len k0 dis
      by (intro exI [of _ "ProcSet sel"]) (simp add: length_ProcSet)
    have "schedule_loop l (j # js) = Inr l'" using l1 r by simp
    moreover have "waiting_jobs (self l') =
        waiting_jobs (self l) @ snd (skip_ahead (int (length (remaining_nodes l))) (j # js))"
      using w f(4) free True by simp
    moreover have "running_jobs (self l') = running_jobs (self l) @ (?j' # new)"
      using n f(3) by simp
    moreover have "list_all2 placed_as (fst (skip_ahead (int (length (remaining_nodes l))) (j # js))) (?j' # new)"
      using p pj free True by simp
    ultimately show ?thesis by blast
  next
    case False
    note nf = schedule_job_nofit [OF False l1]
    have r1: "remaining_nodes l1 = remaining_nodes l" using nf by simp
    have d1: "distinct (remaining_nodes l1)" using r1 Cons.prems(1) by simp
    from Cons.IH [OF d1 dom1 nonneg] obtain l' new where
      r: "schedule_loop l1 js = Inr l'"
      and w: "waiting_jobs (self l') =
                waiting_jobs (self l1) @ snd (skip_ahead (int (length (remaining_nodes l1))) js)"
      and n: "running_jobs (self l') = running_jobs (self l1) @ new"
      and p: "list_all2 placed_as (fst (skip_ahead (int (length (remaining_nodes l1))) js)) new"
      by blast
    have "schedule_loop l (j # js) = Inr l'" using l1 r by simp
    moreover have "waiting_jobs (self l') =
        waiting_jobs (self l) @ snd (skip_ahead (int (length (remaining_nodes l))) (j # js))"
      using w nf r1 False by simp
    moreover have "running_jobs (self l') = running_jobs (self l) @ new"
      using n nf by simp
    moreover have "list_all2 placed_as (fst (skip_ahead (int (length (remaining_nodes l))) (j # js))) new"
      using p r1 False by simp
    ultimately show ?thesis by blast
  qed
qed

lemma snd_load_key [simp]: "snd (load_key loads n) = n"
  by (simp add: load_key_def split: option.splits)

lemma inj_load_key: "inj_on (load_key loads) A"
  by (rule inj_onI) (metis snd_load_key)

lemma load_key_Some: "loads n = Some k \<Longrightarrow> load_key loads n = (k, n)"
  by (simp add: load_key_def)

lemma sorted_prefix_closed:
  "sorted (map f xs) \<Longrightarrow> a \<in> set xs \<Longrightarrow> b \<in> set (take n xs) \<Longrightarrow> f a < f b
     \<Longrightarrow> a \<in> set (take n xs)"
proof (induction xs arbitrary: n)
  case Nil
  then show ?case by simp
next
  case (Cons y ys)
  show ?case
  proof (cases n)
    case 0
    with Cons.prems show ?thesis by simp
  next
    case (Suc m)
    show ?thesis
    proof (cases "a = y")
      case True
      then show ?thesis using Suc by simp
    next
      case False
      with Cons.prems(2) have a: "a \<in> set ys" by simp
      have "b \<noteq> y"
      proof
        assume "b = y"
        with Cons.prems(1) a have "f b \<le> f a" by auto
        with Cons.prems(4) show False by simp
      qed
      with Cons.prems(3) Suc have "b \<in> set (take m ys)" by simp
      with Cons.IH [of m] Cons.prems(1,4) a have "a \<in> set (take m ys)" by simp
      then show ?thesis using Suc by simp
    qed
  qed
qed

lemma sort_key_load_key_unique:
  assumes "distinct pool" and "distinct pool'" and "set pool = set pool'"
  shows "sort_key (load_key loads) pool = sort_key (load_key loads) pool'"
proof -
  let ?f = "load_key loads"
  let ?xs = "sort_key ?f pool" and ?ys = "sort_key ?f pool'"
  have s1: "sorted (map ?f ?xs)" and s2: "sorted (map ?f ?ys)" by simp_all
  have d1: "distinct (map ?f ?xs)" and d2: "distinct (map ?f ?ys)"
    using assms(1,2) by (simp_all add: distinct_map inj_load_key)
  have e: "set (map ?f ?xs) = set (map ?f ?ys)" using assms(3) by simp
  have "map ?f ?xs = map ?f ?ys" by (rule sorted_distinct_set_unique [OF s1 d1 s2 d2 e])
  moreover have "inj_on ?f (set ?xs \<union> set ?ys)" by (rule inj_load_key)
  ultimately show ?thesis by (simp add: inj_on_map_eq_map)
qed

lemma schedule_job_loads:
  assumes "schedule_job l j = Inr l'"
    and "requested_resources j \<le> int (length (remaining_nodes l))"
    and "n \<in> set (remaining_nodes l)"
  shows "\<exists>k. node_loads l n = Some k \<and> load_key (node_loads l) n = (k, n)"
proof -
  from assms(1,2) have "\<not> (\<exists>n \<in> set (remaining_nodes l). node_loads l n = None)"
    by (auto simp: schedule_job_def split: if_splits)
  with assms(3) obtain k where "node_loads l n = Some k" by auto
  then show ?thesis by (simp add: load_key_Some)
qed

lemma finish_pass_simps [simp]:
  "waiting_jobs (finish_pass l) = waiting_jobs (self l)"
  "running_jobs (finish_pass l) = running_jobs (self l)"
  "bs_calls (bs (finish_pass l)) =
     bs_calls (bs (self l)) @ (if jobs_to_execute l = [] then [] else [execute_jobs (jobs_to_execute l)])"
  by (simp_all add: finish_pass_def bs_request_def)

lemma distinct_GetAvailableNodes:
  "distinct (map fst (nodes c)) \<Longrightarrow> distinct (fst (GetAvailableNodes c))"
  by (simp add: GetAvailableNodes_def distinct_map_filter)

lemma schedule_loop_bs: "schedule_loop l js = Inr l' \<Longrightarrow> bs (self l') = bs (self l)"
proof (induction js arbitrary: l)
  case Nil
  then show ?case by simp
next
  case (Cons j js)
  from Cons.prems obtain l1 where l1: "schedule_job l j = Inr l1" and r: "schedule_loop l1 js = Inr l'"
    by (auto split: sum.splits)
  from l1 have "bs (self l1) = bs (self l)"
    by (auto simp: schedule_job_def Let_def split: if_splits)
  with Cons.IH [OF r] show ?case by simp
qed

lemma try_schedule_jobs_batch:
  assumes "try_schedule_jobs s = Inr s'"
  shows "\<exists>batch. running_jobs s' = running_jobs s @ batch
       \<and> bs_calls (bs s') = bs_calls (bs s) @ (if batch = [] then [] else [execute_jobs batch])
       \<and> pairwise_disjoint (map allocated_nodes batch)
       \<and> (\<forall>j \<in> set batch. \<exists>c. power_controller s = Some c
             \<and> allocation j \<noteq> None
             \<and> set (allocated_nodes j) \<subseteq> set (fst (GetAvailableNodes c)))"
proof -
  from try_schedule_jobs_Inr [OF assms] show ?thesis
  proof
    assume "waiting_jobs s = [] \<and> s' = s"
    then have "running_jobs s' = running_jobs s @ []"
      "bs_calls (bs s') = bs_calls (bs s) @ (if [] = ([]::job list) then [] else [execute_jobs []])"
      "pairwise_disjoint (map allocated_nodes [])"
      by simp_all
    then show ?thesis by (intro exI [of _ "[]"]) simp
  next
    assume "\<exists>c loads c2 l. waiting_jobs s \<noteq> [] \<and> power_controller s = Some c
            \<and> fst (GetAvailableNodes c) \<noteq> []
            \<and> schedule_loop
                 \<lparr>self = s\<lparr>waiting_jobs := []\<rparr>, pc = c2, node_loads = loads,
                  remaining_nodes = fst (GetAvailableNodes c), jobs_to_execute = []\<rparr>
                 (waiting_jobs s) = Inr l
            \<and> s' = finish_pass l"
    then obtain c loads c2 l where c: "power_controller s = Some c"
      and l: "schedule_loop
                 \<lparr>self = s\<lparr>waiting_jobs := []\<rparr>, pc = c2, node_loads = loads,
                  remaining_nodes = fst (GetAvailableNodes c), jobs_to_execute = []\<rparr>
                 (waiting_jobs s) = Inr l"
      and s': "s' = finish_pass l"
      by blast
    from schedule_loop_batch [OF l] obtain new where
      j: "jobs_to_execute l = new" and r: "running_jobs (self l) = running_jobs s @ new"
      and p: "pairwise_disjoint (map allocated_nodes new)"
      and a: "\<forall>j \<in> set new. allocation j \<noteq> None \<and> set (allocated_nodes j) \<subseteq> set (fst (GetAvailableNodes c))"
      by auto
    have b: "bs (self l) = bs s" using schedule_loop_bs [OF l] by simp
    have "running_jobs s' = running_jobs s @ new" using s' r by simp
    moreover have "bs_calls (bs s') = bs_calls (bs s) @ (if new = [] then [] else [execute_jobs new])"
      using s' j b by simp
    moreover have "\<forall>j \<in> set new. \<exists>c. power_controller s = Some c
             \<and> allocation j \<noteq> None
             \<and> set (allocated_nodes j) \<subseteq> set (fst (GetAvailableNodes c))"
      using a c by simp
    ultimately show ?thesis using p by blast
  qed
qed

section \<open>Lemmas about the event handlers\<close>

lemma schedule_job_self:
  "schedule_job l j = Inr l' \<Longrightarrow>
     self l' = (self l)\<lparr>waiting_jobs := waiting_jobs (self l'), running_jobs := running_jobs (self l')\<rparr>"
  by (auto simp: schedule_job_def Let_def split: if_splits)

lemma schedule_loop_self:
  "schedule_loop l js = Inr l' \<Longrightarrow>
     self l' = (self l)\<lparr>waiting_jobs := waiting_jobs (self l'), running_jobs := running_jobs (self l')\<rparr>"
proof (induction js arbitrary: l)
  case Nil
  then show ?case by simp
next
  case (Cons j js)
  from Cons.prems obtain l1 where l1: "schedule_job l j = Inr l1" and r: "schedule_loop l1 js = Inr l'"
    by (auto split: sum.splits)
  have "self l' = (self l1)\<lparr>waiting_jobs := waiting_jobs (self l'), running_jobs := running_jobs (self l')\<rparr>"
    by (rule Cons.IH [OF r])
  also have "self l1 = (self l)\<lparr>waiting_jobs := waiting_jobs (self l1), running_jobs := running_jobs (self l1)\<rparr>"
    by (rule schedule_job_self [OF l1])
  finally show ?case by simp
qed

lemma try_schedule_jobs_frame:
  assumes "try_schedule_jobs s = Inr s'"
  shows "\<exists>w r c calls. s' = s\<lparr>waiting_jobs := w, running_jobs := r, power_controller := c,
                                bs := (bs s)\<lparr>bs_calls := calls\<rparr>\<rparr>
           \<and> (power_controller s \<noteq> None \<longrightarrow> c \<noteq> None)"
proof -
  from try_schedule_jobs_Inr [OF assms] show ?thesis
  proof
    assume "waiting_jobs s = [] \<and> s' = s"
    then have "s' = s\<lparr>waiting_jobs := waiting_jobs s, running_jobs := running_jobs s,
                      power_controller := power_controller s,
                      bs := (bs s)\<lparr>bs_calls := bs_calls (bs s)\<rparr>\<rparr>"
      by simp
    then show ?thesis by blast
  next
    assume "\<exists>c loads c2 l. waiting_jobs s \<noteq> [] \<and> power_controller s = Some c
            \<and> fst (GetAvailableNodes c) \<noteq> []
            \<and> schedule_loop
                 \<lparr>self = s\<lparr>waiting_jobs := []\<rparr>, pc = c2, node_loads = loads,
                  remaining_nodes = fst (GetAvailableNodes c), jobs_to_execute = []\<rparr>
                 (waiting_jobs s) = Inr l
            \<and> s' = finish_pass l"
    then obtain c loads c2 l where
      l: "schedule_loop
                 \<lparr>self = s\<lparr>waiting_jobs := []\<rparr>, pc = c2, node_loads = loads,
                  remaining_nodes = fst (GetAvailableNodes c), jobs_to_execute = []\<rparr>
                 (waiting_jobs s) = Inr l"
      and s': "s' = finish_pass l"
      by blast
    define W where "W = waiting_jobs (self l)"
    define R where "R = running_jobs (self l)"
    have e: "self l = s\<lparr>waiting_jobs := W, running_jobs := R\<rparr>"
      using schedule_loop_self [OF l] by (simp add: W_def R_def)
    have "s' = s\<lparr>waiting_jobs := W, running_jobs := R, power_controller := Some (pc l),
                  bs := (bs s)\<lparr>bs_calls := bs_calls (bs s) @
                    (if jobs_to_execute l = [] then [] else [execute_jobs (jobs_to_execute l)])\<rparr>\<rparr>"
      unfolding s' by (simp add: finish_pass_def bs_request_def e)
    then show ?thesis by blast
  qed
qed

lemma try_schedule_jobs_fields:
  assumes "try_schedule_jobs s = Inr s'"
  shows "simulation_started s' = simulation_started s"
    and "nb_resources (bs s') = nb_resources (bs s)"
    and "record_interval s' = record_interval s"
    and "power_controller s \<noteq> None \<Longrightarrow> power_controller s' \<noteq> None"
proof -
  from try_schedule_jobs_frame [OF assms] obtain w r c calls where
    e: "s' = s\<lparr>waiting_jobs := w, running_jobs := r, power_controller := c,
               bs := (bs s)\<lparr>bs_calls := calls\<rparr>\<rparr>"
    and n: "power_controller s \<noteq> None \<longrightarrow> c \<noteq> None"
    by blast
  show "simulation_started s' = simulation_started s" by (subst e) simp
  show "nb_resources (bs s') = nb_resources (bs s)" by (subst e) simp
  show "record_interval s' = record_interval s" by (subst e) simp
  show "power_controller s \<noteq> None \<Longrightarrow> power_controller s' \<noteq> None"
    using n by (subst e) simp
qed

lemma schedule_loop_requests:
  "schedule_loop l js = Inr l' \<Longrightarrow>
     requested_resources ` (set (waiting_jobs (self l')) \<union> set (running_jobs (self l')))
       \<subseteq> requested_resources ` (set (waiting_jobs (self l)) \<union> set (running_jobs (self l)) \<union> set js)"
proof (induction js arbitrary: l)
  case Nil
  then show ?case by simp
next
  case (Cons j js)
  from Cons.prems obtain l1 where l1: "schedule_job l j = Inr l1" and r: "schedule_loop l1 js = Inr l'"
    by (auto split: sum.splits)
  have "requested_resources ` (set (waiting_jobs (self l1)) \<union> set (running_jobs (self l1)))
       \<subseteq> requested_resources ` (set (waiting_jobs (self l)) \<union> set (running_jobs (self l)) \<union> {j})"
    using l1 by (auto simp: schedule_job_def Let_def split: if_splits)
  with Cons.IH [OF r] show ?case by auto
qed

lemma try_schedule_jobs_requests:
  assumes "try_schedule_jobs s = Inr s'"
  shows "requested_resources ` (set (waiting_jobs s') \<union> set (running_jobs s'))
       \<subseteq> requested_resources ` (set (waiting_jobs s) \<union> set (running_jobs s))"
proof -
  from try_schedule_jobs_Inr [OF assms] show ?thesis
  proof
    assume "waiting_jobs s = [] \<and> s' = s"
    then show ?thesis by simp
  next
    assume "\<exists>c loads c2 l. waiting_jobs s \<noteq> [] \<and> power_controller s = Some c
            \<and> fst (GetAvailableNodes c) \<noteq> []
            \<and> schedule_loop
                 \<lparr>self = s\<lparr>waiting_jobs := []\<rparr>, pc = c2, node_loads = loads,
                  remaining_nodes = fst (GetAvailableNodes c), jobs_to_execute = []\<rparr>
                 (waiting_jobs s) = Inr l
            \<and> s' = finish_pass l"
    then obtain c loads c2 l where
      l: "schedule_loop
                 \<lparr>self = s\<lparr>waiting_jobs := []\<rparr>, pc = c2, node_loads = loads,
                  remaining_nodes = fst (GetAvailableNodes c), jobs_to_execute = []\<rparr>
                 (waiting_jobs s) = Inr l"
      and s': "s' = finish_pass l"
      by blast
    from schedule_loop_requests [OF l] s' show ?thesis by auto
  qed
qed

lemma set_remove_job: "set (remove_job j xs) \<subseteq> set xs"
  by (induction xs) auto

lemma onJobSubmission_Inr:
  assumes "onJobSubmission s j = Inr s'"
  shows "(requested_resources j > nb_resources (bs s)
           \<and> s' = s\<lparr>simulation_started := True, bs := bs_request (reject_jobs [j]) (bs s)\<rparr>)
       \<or> (requested_resources j \<le> nb_resources (bs s)
           \<and> try_schedule_jobs (s\<lparr>simulation_started := True, waiting_jobs := waiting_jobs s @ [j]\<rparr>) = Inr s')"
  using assms by (auto simp: onJobSubmission_def Let_def split: if_splits)

lemma onJobCompletion_Inr:
  assumes "onJobCompletion s j = Inr s'"
  shows "\<exists>r c. set r \<subseteq> set (running_jobs s)
           \<and> (power_controller s \<noteq> None \<longrightarrow> c \<noteq> None)
           \<and> try_schedule_jobs (s\<lparr>running_jobs := r, power_controller := c\<rparr>) = Inr s'"
proof -
  define r where "r = (if job_in j (running_jobs s) then remove_job j (running_jobs s) else running_jobs s)"
  have sub: "set r \<subseteq> set (running_jobs s)"
    using set_remove_job [of j "running_jobs s"] by (simp add: r_def)
  have s1: "(if job_in j (running_jobs s) then s\<lparr>running_jobs := remove_job j (running_jobs s)\<rparr> else s)
              = s\<lparr>running_jobs := r\<rparr>"
    by (simp add: r_def)
  from assms obtain s2 where rel: "release_nodes (s\<lparr>running_jobs := r\<rparr>) j = Inr s2"
    and t: "try_schedule_jobs s2 = Inr s'"
    unfolding onJobCompletion_def Let_def s1 by (auto split: sum.splits)
  have "\<exists>c. s2 = s\<lparr>running_jobs := r, power_controller := c\<rparr>
          \<and> (power_controller s \<noteq> None \<longrightarrow> c \<noteq> None)"
  proof (cases "allocation j")
    case None
    with rel show ?thesis by (simp add: release_nodes_def)
  next
    case (Some a)
    show ?thesis
    proof (cases "a = []")
      case True
      with rel Some have "s2 = s\<lparr>running_jobs := r\<rparr>" by (simp add: release_nodes_def)
      then have "s2 = s\<lparr>running_jobs := r, power_controller := power_controller s\<rparr>" by simp
      then show ?thesis by blast
    next
      case False
      with rel Some obtain c0 where
        "s2 = s\<lparr>running_jobs := r, power_controller := Some (fold RemoveJobFromNode a c0)\<rparr>"
        by (auto simp: release_nodes_def split: option.splits)
      then show ?thesis by blast
    qed
  qed
  with sub t show ?thesis by blast
qed

lemma onRequestedCall_fields:
  assumes "onRequestedCall policy s = Inr s'"
  shows "waiting_jobs s' = waiting_jobs s"
    and "running_jobs s' = running_jobs s"
    and "simulation_started s' = simulation_started s"
    and "nb_resources (bs s') = nb_resources (bs s)"
    and "power_controller s' \<noteq> None"
    and "bs_calls (bs s') = bs_calls (bs s)
         \<or> bs_calls (bs s') = bs_calls (bs s) @ [wake_me_up_at (bs_time (bs s) + record_interval s)]"
  using assms
  by (auto simp: onRequestedCall_def Let_def schedule_next_record_def bs_request_def
      split: option.splits if_splits)

lemma onRequestedCall_record_interval:
  "onRequestedCall policy s = Inr s' \<Longrightarrow> record_interval s' = record_interval s"
  by (auto simp: onRequestedCall_def Let_def schedule_next_record_def bs_request_def
      split: option.splits if_splits)

lemma onMachinePStateChanged_Inr:
  assumes "onMachinePStateChanged s ms p = Inr s'"
  shows "\<exists>c. s' = s\<lparr>power_controller := c\<rparr> \<and> (power_controller s \<noteq> None \<longrightarrow> c \<noteq> None)"
proof (cases "ms = []")
  case True
  with assms have "s' = s\<lparr>power_controller := power_controller s\<rparr>"
    by (simp add: onMachinePStateChanged_def)
  then show ?thesis by blast
next
  case False
  with assms show ?thesis
    by (auto simp: onMachinePStateChanged_def split: option.splits)
qed

lemma onReportEnergyConsumed_fields [simp]:
  "running_jobs (onReportEnergyConsumed s e) = running_jobs s"
  "waiting_jobs (onReportEnergyConsumed s e) = waiting_jobs s"
  "bs (onReportEnergyConsumed s e) = bs s"
  "simulation_started (onReportEnergyConsumed s e) = simulation_started s"
  "record_interval (onReportEnergyConsumed s e) = record_interval s"
  "power_controller (onReportEnergyConsumed s e) = power_controller s"
  by (simp_all add: onReportEnergyConsumed_def Let_def)




lemma handle_capacity:
  assumes "handle policy s ev = Inr s'"
    and "\<forall>k \<in> set (waiting_jobs s) \<union> set (running_jobs s). requested_resources k \<le> nb_resources (bs s)"
  shows "nb_resources (bs s') = nb_resources (bs s)
       \<and> (\<forall>k \<in> set (waiting_jobs s') \<union> set (running_jobs s'). requested_resources k \<le> nb_resources (bs s))"
proof (cases ev)
  case SimulationBegins
  with assms show ?thesis by (auto simp: onSimulationBegins_def)
next
  case RequestedCall
  with assms(1) have c: "onRequestedCall policy s = Inr s'" by simp
  from onRequestedCall_fields(1,2,4) [OF c] assms(2) show ?thesis by simp
next
  case (JobSubmission j)
  with assms(1) have c: "onJobSubmission s j = Inr s'" by simp
  from onJobSubmission_Inr [OF c] show ?thesis
  proof
    assume "requested_resources j > nb_resources (bs s)
           \<and> s' = s\<lparr>simulation_started := True, bs := bs_request (reject_jobs [j]) (bs s)\<rparr>"
    with assms(2) show ?thesis by (simp add: bs_request_def)
  next
    assume a: "requested_resources j \<le> nb_resources (bs s)
           \<and> try_schedule_jobs (s\<lparr>simulation_started := True, waiting_jobs := waiting_jobs s @ [j]\<rparr>) = Inr s'"
    let ?s1 = "s\<lparr>simulation_started := True, waiting_jobs := waiting_jobs s @ [j]\<rparr>"
    from a have t: "try_schedule_jobs ?s1 = Inr s'" by simp
    have "\<forall>r \<in> requested_resources ` (set (waiting_jobs ?s1) \<union> set (running_jobs ?s1)). r \<le> nb_resources (bs s)"
      using a assms(2) by auto
    with try_schedule_jobs_requests [OF t]
    have "\<forall>r \<in> requested_resources ` (set (waiting_jobs s') \<union> set (running_jobs s')). r \<le> nb_resources (bs s)"
      by blast
    with try_schedule_jobs_fields(2) [OF t] show ?thesis by simp
  qed
next
  case (JobCompletion j)
  with assms(1) have c: "onJobCompletion s j = Inr s'" by simp
  from onJobCompletion_Inr [OF c] obtain r c where r: "set r \<subseteq> set (running_jobs s)"
    and t: "try_schedule_jobs (s\<lparr>running_jobs := r, power_controller := c\<rparr>) = Inr s'"
    by blast
  let ?s1 = "s\<lparr>running_jobs := r, power_controller := c\<rparr>"
  have "\<forall>r \<in> requested_resources ` (set (waiting_jobs ?s1) \<union> set (running_jobs ?s1)). r \<le> nb_resources (bs s)"
    using r assms(2) by auto
  with try_schedule_jobs_requests [OF t]
  have "\<forall>r \<in> requested_resources ` (set (waiting_jobs s') \<union> set (running_jobs s')). r \<le> nb_resources (bs s)"
    by blast
  with try_schedule_jobs_fields(2) [OF t] show ?thesis by simp
next
  case (JobKilled j)
  with assms show ?thesis by (simp add: onJobKilled_def)
next
  case (JobMessage t j m)
  with assms show ?thesis by simp
next
  case (MachinePStateChanged ms p)
  with assms(1) have "onMachinePStateChanged s ms p = Inr s'" by simp
  from onMachinePStateChanged_Inr [OF this] assms(2) show ?thesis by auto
next
  case (ReportEnergyConsumed e)
  with assms show ?thesis by auto
next
  case Deadlock
  with assms show ?thesis by (simp add: onDeadlock_def)
next
  case SimulationEnds
  with assms show ?thesis by simp
qed

lemma run_capacity:
  assumes "run policy s evs = Inr s'"
    and "\<forall>k \<in> set (waiting_jobs s) \<union> set (running_jobs s). requested_resources k \<le> nb_resources (bs s)"
  shows "nb_resources (bs s') = nb_resources (bs s)
       \<and> (\<forall>k \<in> set (waiting_jobs s') \<union> set (running_jobs s'). requested_resources k \<le> nb_resources (bs s))"
  using assms
proof (induction evs arbitrary: s)
  case Nil
  then show ?case by simp
next
  case (Cons tev evs)
  obtain t ev where tev: "tev = (t, ev)" by (cases tev)
  from Cons.prems(1) tev obtain s1 where h: "handle policy (at_time t s) ev = Inr s1"
    and r: "run policy s1 evs = Inr s'"
    by (auto split: sum.splits)
  have "waiting_jobs (at_time t s) = waiting_jobs s" "running_jobs (at_time t s) = running_jobs s"
    "nb_resources (bs (at_time t s)) = nb_resources (bs s)"
    by (simp_all add: at_time_def)
  with Cons.prems(2) handle_capacity [OF h] have
    n1: "nb_resources (bs s1) = nb_resources (bs s)"
    and i1: "\<forall>k \<in> set (waiting_jobs s1) \<union> set (running_jobs s1). requested_resources k \<le> nb_resources (bs s1)"
    by simp_all
  from Cons.IH [OF r i1] n1 show ?case by simp
qed

lemma handle_started:
  assumes "handle policy s ev = Inr s'"
  shows "simulation_started s' =
          (case ev of SimulationBegins \<Rightarrow> False | JobSubmission j \<Rightarrow> True | _ \<Rightarrow> simulation_started s)
       \<and> record_interval s' = record_interval s"
proof (cases ev)
  case SimulationBegins
  with assms show ?thesis by (auto simp: onSimulationBegins_def)
next
  case RequestedCall
  with assms have c: "onRequestedCall policy s = Inr s'" by simp
  from onRequestedCall_fields(3) [OF c] onRequestedCall_record_interval [OF c] RequestedCall
  show ?thesis by simp
next
  case (JobSubmission j)
  with assms have c: "onJobSubmission s j = Inr s'" by simp
  from onJobSubmission_Inr [OF c] show ?thesis
  proof
    assume "requested_resources j > nb_resources (bs s)
           \<and> s' = s\<lparr>simulation_started := True, bs := bs_request (reject_jobs [j]) (bs s)\<rparr>"
    with JobSubmission show ?thesis by simp
  next
    assume "requested_resources j \<le> nb_resources (bs s)
           \<and> try_schedule_jobs (s\<lparr>simulation_started := True, waiting_jobs := waiting_jobs s @ [j]\<rparr>) = Inr s'"
    then have t: "try_schedule_jobs (s\<lparr>simulation_started := True, waiting_jobs := waiting_jobs s @ [j]\<rparr>) = Inr s'"
      by simp
    from try_schedule_jobs_fields(1,3) [OF t] JobSubmission show ?thesis by simp
  qed
next
  case (JobCompletion j)
  with assms have c: "onJobCompletion s j = Inr s'" by simp
  from onJobCompletion_Inr [OF c] obtain r c where
    t: "try_schedule_jobs (s\<lparr>running_jobs := r, power_controller := c\<rparr>) = Inr s'"
    by blast
  from try_schedule_jobs_fields(1,3) [OF t] JobCompletion show ?thesis by simp
next
  case (JobKilled j)
  with assms show ?thesis by (simp add: onJobKilled_def)
next
  case (JobMessage t j m)
  with assms show ?thesis by simp
next
  case (MachinePStateChanged ms p)
  with assms have "onMachinePStateChanged s ms p = Inr s'" by simp
  from onMachinePStateChanged_Inr [OF this] MachinePStateChanged show ?thesis by auto
next
  case (ReportEnergyConsumed e)
  with assms show ?thesis by auto
next
  case Deadlock
  with assms show ?thesis by (simp add: onDeadlock_def)
next
  case SimulationEnds
  with assms show ?thesis by simp
qed

lemma run_started:
  "run policy s evs = Inr s' \<Longrightarrow>
     simulation_started s' = submitted_since_begin (simulation_started s) evs
     \<and> record_interval s' = record_interval s"
proof (induction evs arbitrary: s)
  case Nil
  then show ?case by simp
next
  case (Cons tev evs)
  obtain t ev where tev: "tev = (t, ev)" by (cases tev)
  from Cons.prems(1) tev obtain s1 where h: "handle policy (at_time t s) ev = Inr s1"
    and r: "run policy s1 evs = Inr s'"
    by (auto split: sum.splits)
  have "simulation_started (at_time t s) = simulation_started s"
    "record_interval (at_time t s) = record_interval s"
    by (simp_all add: at_time_def)
  with handle_started [OF h] Cons.IH [OF r] tev show ?case by (cases ev) simp_all
qed

section \<open>Properties\<close>

text \<open>
  C1 (skip-ahead FCFS pass), amended. A pass over a non-empty waiting queue whose jobs
  request non-negative node counts, on a controller with unique node ids and at least one
  available node, returns normally. It walks the queue once with the number of nodes still
  free: a job that requests at most that number is placed, that is, appended to the running
  set with an allocation of exactly the requested number of distinct nodes, and lowers the
  number; a job that does not fit is kept in the new waiting queue and does not stop the
  walk. The new queue is a subsequence of the old one, so the jobs that stay keep their
  order. \<open>skip_ahead\<close> is this policy in the specification's words.
\<close>

theorem C1_skip_ahead_pass:
  assumes "waiting_jobs s \<noteq> []" and "power_controller s = Some c"
    and "fst (GetAvailableNodes c) \<noteq> []" and "distinct (map fst (nodes c))"
    and "\<forall>j \<in> set (waiting_jobs s). 0 \<le> requested_resources j"
  shows "\<exists>s' new. try_schedule_jobs s = Inr s'
     \<and> waiting_jobs s' = snd (skip_ahead (int (length (fst (GetAvailableNodes c)))) (waiting_jobs s))
     \<and> running_jobs s' = running_jobs s @ new
     \<and> list_all2 placed_as (fst (skip_ahead (int (length (fst (GetAvailableNodes c)))) (waiting_jobs s))) new
     \<and> subseq (waiting_jobs s') (waiting_jobs s)"
proof -
  let ?av = "fst (GetAvailableNodes c)"
  from try_schedule_jobs_pass [OF assms(1,2,3)] obtain loads c2 l where
    d: "dom loads = set ?av"
    and l: "schedule_loop
              \<lparr>self = s\<lparr>waiting_jobs := []\<rparr>, pc = c2, node_loads = loads,
               remaining_nodes = ?av, jobs_to_execute = []\<rparr>
              (waiting_jobs s) = Inr l"
    and t: "try_schedule_jobs s = Inr (finish_pass l)"
    by blast
  let ?l0 = "\<lparr>self = s\<lparr>waiting_jobs := []\<rparr>, pc = c2, node_loads = loads,
               remaining_nodes = ?av, jobs_to_execute = []\<rparr>"
  have "distinct (remaining_nodes ?l0)"
    using distinct_GetAvailableNodes [OF assms(4)] by simp
  moreover have "set (remaining_nodes ?l0) \<subseteq> dom (node_loads ?l0)" using d by simp
  ultimately obtain l' new where
    l': "schedule_loop ?l0 (waiting_jobs s) = Inr l'"
    and w: "waiting_jobs (self l') =
              waiting_jobs (self ?l0) @ snd (skip_ahead (int (length (remaining_nodes ?l0))) (waiting_jobs s))"
    and r: "running_jobs (self l') = running_jobs (self ?l0) @ new"
    and p: "list_all2 placed_as (fst (skip_ahead (int (length (remaining_nodes ?l0))) (waiting_jobs s))) new"
    using schedule_loop_skip_ahead [of ?l0 "waiting_jobs s"] assms(5) by blast
  from l l' have eq: "l' = l" by simp
  have "waiting_jobs (finish_pass l) = snd (skip_ahead (int (length ?av)) (waiting_jobs s))"
    using w eq by simp
  moreover have "running_jobs (finish_pass l) = running_jobs s @ new"
    using r eq by simp
  moreover have "list_all2 placed_as (fst (skip_ahead (int (length ?av)) (waiting_jobs s))) new"
    using p by simp
  moreover have "subseq (waiting_jobs (finish_pass l)) (waiting_jobs s)"
    using calculation(1) subseq_skip_ahead [of "int (length ?av)" "waiting_jobs s"] by simp
  ultimately show ?thesis using t by blast
qed

text \<open>
  The pass on the queue A, B, C of the idle four-node cluster: A and C are placed, and B,
  which needs 3 of the 2 nodes left after A, stays in the queue.
\<close>

theorem C1_skip_ahead_pass_witness:
  "\<exists>s'. try_schedule_jobs queued_ABC = Inr s'
      \<and> waiting_jobs s' = [job_B]
      \<and> map job_id (running_jobs s') = [job_id job_A, job_id job_C]"
proof -
  let ?c = "new_NodePowerController cluster4"
  have h1: "waiting_jobs queued_ABC \<noteq> []" by (simp add: queued_ABC_def)
  have h2: "power_controller queued_ABC = Some ?c"
    by (simp add: queued_ABC_def onSimulationBegins_def init_def)
  have av: "fst (GetAvailableNodes ?c) = [0, 1, 2, 3]" by code_simp
  have h3: "fst (GetAvailableNodes ?c) \<noteq> []" using av by simp
  have h4: "distinct (map fst (nodes ?c))" by code_simp
  have h5: "\<forall>j \<in> set (waiting_jobs queued_ABC). 0 \<le> requested_resources j"
    by (simp add: queued_ABC_def job_A_def job_B_def job_C_def)
  have sk: "skip_ahead (int (length (fst (GetAvailableNodes ?c)))) (waiting_jobs queued_ABC)
              = ([job_A, job_C], [job_B])"
    unfolding av by (simp add: queued_ABC_def job_A_def job_B_def job_C_def)
  have r0: "running_jobs queued_ABC = []"
    by (simp add: queued_ABC_def onSimulationBegins_def init_def)
  from C1_skip_ahead_pass [OF h1 h2 h3 h4 h5] obtain s' new where
    t: "try_schedule_jobs queued_ABC = Inr s'"
    and w: "waiting_jobs s' = [job_B]"
    and r: "running_jobs s' = new"
    and p: "list_all2 placed_as [job_A, job_C] new"
    unfolding sk r0 by auto
  from p obtain a c where n: "new = [a, c]" and "placed_as job_A a" and "placed_as job_C c"
    by (auto simp: list_all2_Cons1)
  then have "job_id a = job_id job_A" "job_id c = job_id job_C"
    by (auto simp: placed_as_def)
  with t w r n show ?thesis by simp
qed

text \<open>
  The scenario of section 8 does not run as C1 states it. When B is submitted while A runs
  on nodes 0 and 1, these two nodes are COMPUTING and are still reported available, so the
  pool has 4 nodes: B is placed at once on nodes 2, 3 and 0, and the waiting queue is empty.
\<close>

theorem C1_scenario_counterexample:
  "\<exists>s. run id (init cluster4)
          [(0, SimulationBegins), (1, JobSubmission job_A), (2, JobSubmission job_B)] = Inr s
      \<and> waiting_jobs s = []
      \<and> running_jobs s = [job_A\<lparr>allocation := Some [0, 1]\<rparr>, job_B\<lparr>allocation := Some [0, 2, 3]\<rparr>]"
proof -
  have "case run id (init cluster4)
          [(0, SimulationBegins), (1, JobSubmission job_A), (2, JobSubmission job_B)] of
          Inr s \<Rightarrow> waiting_jobs s = []
            \<and> running_jobs s = [job_A\<lparr>allocation := Some [0, 1]\<rparr>, job_B\<lparr>allocation := Some [0, 2, 3]\<rparr>]
        | Inl e \<Rightarrow> False"
    by code_simp
  then show ?thesis
    by (cases "run id (init cluster4)
          [(0, SimulationBegins), (1, JobSubmission job_A), (2, JobSubmission job_B)]") simp_all
qed




text \<open>
  C3 (admission control). A job that requests more nodes than \<^verbatim>\<open>bs.nb_resources\<close> is
  rejected by \<^verbatim>\<open>onJobSubmission\<close> itself: the only effects are the flag
  \<open>simulation_started\<close> and the \<^verbatim>\<open>reject_jobs\<close> request, so the waiting queue, the
  running set and the power controller are untouched and no placement pass runs. Any other
  job is appended at the tail of the waiting queue and a pass follows. In every state
  reached from a fresh scheduler, no job that is waiting or running requests more nodes
  than the cluster has, so a rejected job never shows up in either collection.
\<close>

theorem C3_admission_control:
  "(requested_resources j > nb_resources (bs s) \<longrightarrow>
      onJobSubmission s j =
        Inr (s\<lparr>simulation_started := True, bs := bs_request (reject_jobs [j]) (bs s)\<rparr>))
   \<and> (requested_resources j \<le> nb_resources (bs s) \<longrightarrow>
      onJobSubmission s j =
        try_schedule_jobs (s\<lparr>simulation_started := True, waiting_jobs := waiting_jobs s @ [j]\<rparr>))
   \<and> (run policy (init b) evs = Inr s' \<longrightarrow>
      (\<forall>k \<in> set (waiting_jobs s') \<union> set (running_jobs s'). requested_resources k \<le> nb_resources b))"
proof (intro conjI impI)
  assume "requested_resources j > nb_resources (bs s)"
  then show "onJobSubmission s j =
        Inr (s\<lparr>simulation_started := True, bs := bs_request (reject_jobs [j]) (bs s)\<rparr>)"
    by (simp add: onJobSubmission_def)
next
  assume "requested_resources j \<le> nb_resources (bs s)"
  then show "onJobSubmission s j =
        try_schedule_jobs (s\<lparr>simulation_started := True, waiting_jobs := waiting_jobs s @ [j]\<rparr>)"
    by (simp add: onJobSubmission_def)
next
  assume r: "run policy (init b) evs = Inr s'"
  have "\<forall>k \<in> set (waiting_jobs (init b)) \<union> set (running_jobs (init b)).
          requested_resources k \<le> nb_resources (bs (init b))"
    by (simp add: init_def)
  from run_capacity [OF r this]
  show "\<forall>k \<in> set (waiting_jobs s') \<union> set (running_jobs s'). requested_resources k \<le> nb_resources b"
    by (simp add: init_def)
qed

text \<open>
  On the four-node cluster, D (10 nodes) is rejected and A (2 nodes) is queued and passed
  to the placement; after both submissions only A runs.
\<close>

theorem C3_admission_control_witness:
  "onJobSubmission (onSimulationBegins (init cluster4)) job_D =
     Inr ((onSimulationBegins (init cluster4))
            \<lparr>simulation_started := True, bs := bs_request (reject_jobs [job_D]) cluster4\<rparr>)
   \<and> onJobSubmission (init cluster4) job_A =
       try_schedule_jobs ((init cluster4)\<lparr>simulation_started := True, waiting_jobs := [job_A]\<rparr>)
   \<and> (\<exists>s'. run id (init cluster4)
              [(0, SimulationBegins), (1, JobSubmission job_D), (2, JobSubmission job_A)] = Inr s'
         \<and> waiting_jobs s' = [] \<and> running_jobs s' = [done_A]
         \<and> requested_resources done_A \<le> nb_resources cluster4)"
proof -
  let ?s = "onSimulationBegins (init cluster4)"
  let ?evs = "[(0, SimulationBegins), (1, JobSubmission job_D), (2, JobSubmission job_A)]"
  have b: "bs ?s = cluster4" by (simp add: onSimulationBegins_def init_def)
  have "requested_resources job_D > nb_resources (bs ?s)"
    unfolding b by (simp add: job_D_def cluster4_def)
  with C3_admission_control [where j = job_D and s = "?s"] have 1:
    "onJobSubmission ?s job_D =
       Inr (?s\<lparr>simulation_started := True, bs := bs_request (reject_jobs [job_D]) cluster4\<rparr>)"
    unfolding b by blast
  have "requested_resources job_A \<le> nb_resources (bs (init cluster4))"
    by (simp add: init_def job_A_def cluster4_def)
  with C3_admission_control [where j = job_A and s = "init cluster4"] have 2:
    "onJobSubmission (init cluster4) job_A =
       try_schedule_jobs ((init cluster4)\<lparr>simulation_started := True, waiting_jobs := [job_A]\<rparr>)"
    by (simp add: init_def)
  have "case run id (init cluster4) ?evs of
          Inr s' \<Rightarrow> waiting_jobs s' = [] \<and> running_jobs s' = [done_A] | Inl e \<Rightarrow> False"
    by code_simp
  then obtain s' where r: "run id (init cluster4) ?evs = Inr s'"
    and q: "waiting_jobs s' = []" "running_jobs s' = [done_A]"
    by (cases "run id (init cluster4) ?evs") simp_all
  from C3_admission_control [where policy = id and b = cluster4 and evs = "?evs" and s' = s'] r q
  have "requested_resources done_A \<le> nb_resources cluster4" by simp
  with 1 2 r q show ?thesis by blast
qed

text \<open>
  C4 (tie-break determinism). When the loop places a job, that is, when the job fits the
  pool and the iteration returns, the job is appended to the running set and to the batch
  with the allocation \<open>ProcSet a\<close>, where \<open>a\<close> is the slice \<^verbatim>\<open>[:requested]\<close> of
  \<open>sorted_nodes\<close>, a permutation of the pool in ascending order of load first and node id
  second; for a non-negative request \<open>a\<close> is exactly the first \<open>requested\<close> nodes of
  that order, and these nodes leave the pool. Hence whenever a pool node has a smaller load
  than an allocated node, or the same load and a lower id, it is allocated as well. The
  allocation depends on the pool only through its set of nodes: a pool that lists the same
  distinct nodes in another order, under the same loads, yields the same allocation.
\<close>

theorem C4_tie_break:
  assumes "schedule_job l j = Inr l'"
    and "requested_resources j \<le> int (length (remaining_nodes l))"
  shows "\<exists>sorted_nodes a.
      mset sorted_nodes = mset (remaining_nodes l)
    \<and> sorted_wrt (\<lambda>x y. \<exists>kx ky. node_loads l x = Some kx \<and> node_loads l y = Some ky
                         \<and> (kx < ky \<or> (kx = ky \<and> x \<le> y))) sorted_nodes
    \<and> a = slice_to sorted_nodes (requested_resources j)
    \<and> (0 \<le> requested_resources j \<longrightarrow>
          a = take (nat (requested_resources j)) sorted_nodes
        \<and> length a = nat (requested_resources j))
    \<and> running_jobs (self l') = running_jobs (self l) @ [j\<lparr>allocation := Some (ProcSet a)\<rparr>]
    \<and> jobs_to_execute l' = jobs_to_execute l @ [j\<lparr>allocation := Some (ProcSet a)\<rparr>]
    \<and> remaining_nodes l' = filter (\<lambda>n. n \<notin> set a) (remaining_nodes l)
    \<and> (\<forall>x \<in> set (remaining_nodes l). \<forall>y \<in> set a. \<forall>kx ky.
          node_loads l x = Some kx \<and> node_loads l y = Some ky
          \<and> (kx < ky \<or> (kx = ky \<and> x < y)) \<longrightarrow> x \<in> set a)
    \<and> (\<forall>l2 l2'. node_loads l2 = node_loads l
          \<and> distinct (remaining_nodes l) \<and> distinct (remaining_nodes l2)
          \<and> set (remaining_nodes l2) = set (remaining_nodes l)
          \<and> schedule_job l2 j = Inr l2' \<longrightarrow>
          running_jobs (self l2') = running_jobs (self l2) @ [j\<lparr>allocation := Some (ProcSet a)\<rparr>])"
proof -
  let ?key = "load_key (node_loads l)"
  let ?pool = "remaining_nodes l"
  define sorted_nodes where "sorted_nodes = sort_key ?key ?pool"
  define a where "a = slice_to sorted_nodes (requested_resources j)"
  have sel: "select_nodes (node_loads l) ?pool (requested_resources j) = a"
    by (simp add: select_nodes_def a_def sorted_nodes_def)
  note f = schedule_job_fit [OF assms(2,1), unfolded sel]
  have 1: "mset sorted_nodes = mset ?pool" by (simp add: sorted_nodes_def)
  have set_sorted: "set sorted_nodes = set ?pool" by (simp add: sorted_nodes_def)
  have "sorted (map ?key sorted_nodes)" by (simp add: sorted_nodes_def)
  then have sw: "sorted_wrt (\<lambda>x y. ?key x \<le> ?key y) sorted_nodes" by (simp add: sorted_map)
  have 2: "sorted_wrt (\<lambda>x y. \<exists>kx ky. node_loads l x = Some kx \<and> node_loads l y = Some ky
                         \<and> (kx < ky \<or> (kx = ky \<and> x \<le> y))) sorted_nodes"
  proof (rule sorted_wrt_mono_rel [OF _ sw])
    fix x y
    assume "x \<in> set sorted_nodes" "y \<in> set sorted_nodes" and le: "?key x \<le> ?key y"
    then have "x \<in> set ?pool" "y \<in> set ?pool" using set_sorted by simp_all
    from schedule_job_loads [OF assms this(1)] schedule_job_loads [OF assms this(2)]
    obtain kx ky where kx: "node_loads l x = Some kx" "?key x = (kx, x)"
      and ky: "node_loads l y = Some ky" "?key y = (ky, y)"
      by blast
    from le kx(2) ky(2) have "kx < ky \<or> (kx = ky \<and> x \<le> y)" by auto
    with kx(1) ky(1)
    show "\<exists>kx ky. node_loads l x = Some kx \<and> node_loads l y = Some ky
                         \<and> (kx < ky \<or> (kx = ky \<and> x \<le> y))"
      by blast
  qed
  have 4: "0 \<le> requested_resources j \<longrightarrow>
          a = take (nat (requested_resources j)) sorted_nodes
        \<and> length a = nat (requested_resources j)"
    using assms(2) by (auto simp: a_def slice_to_def sorted_nodes_def)
  obtain n where n: "a = take n sorted_nodes"
    using slice_to_take [of sorted_nodes "requested_resources j"] by (auto simp: a_def)
  have 8: "\<forall>x \<in> set ?pool. \<forall>y \<in> set a. \<forall>kx ky.
          node_loads l x = Some kx \<and> node_loads l y = Some ky
          \<and> (kx < ky \<or> (kx = ky \<and> x < y)) \<longrightarrow> x \<in> set a"
  proof (intro ballI allI impI)
    fix x y kx ky
    assume x: "x \<in> set ?pool" and y: "y \<in> set a"
      and h: "node_loads l x = Some kx \<and> node_loads l y = Some ky \<and> (kx < ky \<or> (kx = ky \<and> x < y))"
    then have "?key x < ?key y" by (auto simp: load_key_Some)
    moreover have "x \<in> set sorted_nodes" using x set_sorted by simp
    moreover have "y \<in> set (take n sorted_nodes)" using y n by simp
    moreover have "sorted (map ?key sorted_nodes)" by (simp add: sorted_nodes_def)
    ultimately have "x \<in> set (take n sorted_nodes)"
      using sorted_prefix_closed [of ?key sorted_nodes x y n] by blast
    then show "x \<in> set a" using n by simp
  qed
  have 9: "\<forall>l2 l2'. node_loads l2 = node_loads l
          \<and> distinct (remaining_nodes l) \<and> distinct (remaining_nodes l2)
          \<and> set (remaining_nodes l2) = set (remaining_nodes l)
          \<and> schedule_job l2 j = Inr l2' \<longrightarrow>
          running_jobs (self l2') = running_jobs (self l2) @ [j\<lparr>allocation := Some (ProcSet a)\<rparr>]"
  proof (intro allI impI)
    fix l2 l2'
    assume h: "node_loads l2 = node_loads l
          \<and> distinct (remaining_nodes l) \<and> distinct (remaining_nodes l2)
          \<and> set (remaining_nodes l2) = set (remaining_nodes l)
          \<and> schedule_job l2 j = Inr l2'"
    then have d1: "distinct ?pool" and d2: "distinct (remaining_nodes l2)"
      and e: "set (remaining_nodes l2) = set ?pool"
      by simp_all
    have "length (remaining_nodes l2) = card (set (remaining_nodes l2))"
      using d2 by (simp only: distinct_card)
    also have "\<dots> = card (set ?pool)" using e by simp
    also have "\<dots> = length ?pool" using d1 by (simp only: distinct_card)
    finally have len: "length (remaining_nodes l2) = length ?pool" .
    with assms(2) have fit2: "requested_resources j \<le> int (length (remaining_nodes l2))" by simp
    from h have s2: "schedule_job l2 j = Inr l2'" by simp
    have "sort_key ?key (remaining_nodes l2) = sort_key ?key ?pool"
      using h by (intro sort_key_load_key_unique) simp_all
    then have "select_nodes (node_loads l2) (remaining_nodes l2) (requested_resources j) = a"
      using h by (simp add: select_nodes_def a_def sorted_nodes_def)
    with schedule_job_fit(3) [OF fit2 s2]
    show "running_jobs (self l2') = running_jobs (self l2) @ [j\<lparr>allocation := Some (ProcSet a)\<rparr>]"
      by simp
  qed
  have 3: "a = slice_to sorted_nodes (requested_resources j)" by (rule a_def)
  from 1 2 3 4 f(3) f(2) f(1) 8 9 show ?thesis by blast
qed

text \<open>
  Pool 3, 2, 1, 0 with one job on nodes 0 and 3 and none on nodes 1 and 2; B asks for 3
  nodes. The three nodes taken are 1 and 2, then node 0 ahead of node 3: the allocation is
  0, 1, 2, and node 3 stays in the pool.
\<close>

theorem C4_tie_break_witness:
  "\<exists>l' a. schedule_job pass_example job_B = Inr l'
      \<and> running_jobs (self l') = [job_B\<lparr>allocation := Some (ProcSet a)\<rparr>]
      \<and> ProcSet a = [0, 1, 2]
      \<and> length a = 3
      \<and> remaining_nodes l' = [3]"
proof -
  have "case schedule_job pass_example job_B of
         Inr l' \<Rightarrow> running_jobs (self l') = [job_B\<lparr>allocation := Some [0, 1, 2]\<rparr>] \<and> remaining_nodes l' = [3]
       | Inl e \<Rightarrow> False"
    by code_simp
  then obtain l' where s: "schedule_job pass_example job_B = Inr l'"
    and r: "running_jobs (self l') = [job_B\<lparr>allocation := Some [0, 1, 2]\<rparr>]"
    and m: "remaining_nodes l' = [3]"
    by (cases "schedule_job pass_example job_B") simp_all
  have fit: "requested_resources job_B \<le> int (length (remaining_nodes pass_example))"
    by (simp add: job_B_def pass_example_def)
  have r0: "running_jobs (self pass_example) = []" by (simp add: pass_example_def init_def)
  have k: "0 \<le> requested_resources job_B" "nat (requested_resources job_B) = 3"
    by (simp_all add: job_B_def)
  from C4_tie_break [OF s fit] obtain a where
    ra: "running_jobs (self l') = running_jobs (self pass_example) @ [job_B\<lparr>allocation := Some (ProcSet a)\<rparr>]"
    and la: "0 \<le> requested_resources job_B \<longrightarrow> length a = nat (requested_resources job_B)"
    by blast
  from ra r r0 have "job_B\<lparr>allocation := Some (ProcSet a)\<rparr> = job_B\<lparr>allocation := Some [0, 1, 2]\<rparr>"
    by simp
  then have "allocation (job_B\<lparr>allocation := Some (ProcSet a)\<rparr>) = allocation (job_B\<lparr>allocation := Some [0, 1, 2]\<rparr>)"
    by (rule arg_cong)
  then have p: "ProcSet a = [0, 1, 2]" by simp
  from la k have n: "length a = 3" by simp
  from ra r0 have q: "running_jobs (self l') = [job_B\<lparr>allocation := Some (ProcSet a)\<rparr>]" by simp
  from s q p n m show ?thesis by blast
qed

text \<open>
  C5 (power metering). The claim expects the reports \<open>(t = 0, E = 0)\<close> and then
  \<open>(t = 60, E = 600)\<close> to give \<open>current_power = 10\<close>. The code recognises ``not the
  first update'' by \<open>last_energy_time > 0\<close>; after a first report at time \<open>0\<close> that
  test is still false, so the second report only moves the baseline and the power stays
  at its initial \<open>0\<close>. The first half of the scenario holds: the first report leaves the
  power at \<open>0\<close> and sets the baseline \<open>(0, 0)\<close>.
\<close>

theorem C5_power_metering_stays_zero:
  "current_power (onReportEnergyConsumed (at_time 0 (init b)) 0) = 0
   \<and> last_energy (onReportEnergyConsumed (at_time 0 (init b)) 0) = 0
   \<and> last_energy_time (onReportEnergyConsumed (at_time 0 (init b)) 0) = 0
   \<and> current_power
        (onReportEnergyConsumed (at_time 60 (onReportEnergyConsumed (at_time 0 (init b)) 0)) 600) = 0
   \<and> current_power
        (onReportEnergyConsumed (at_time 60 (onReportEnergyConsumed (at_time 0 (init b)) 0)) 600) \<noteq> 10"
  by (simp add: onReportEnergyConsumed_def at_time_def init_def)

text \<open>
  C6 (tolerant completion handling). The claim expects a completion event for a job that
  is not in the running set to change nothing. \<^verbatim>\<open>onJobCompletion\<close> guards only the
  removal from the running set with \<^verbatim>\<open>if job in self.running_jobs\<close>; the loop over
  \<^verbatim>\<open>job.allocation\<close> is outside the guard. When the completion of A is delivered a
  second time, A is no longer running, the handler returns normally, and nodes 0 and 1
  are released once more: two further \<^verbatim>\<open>RemoveJobFromNode\<close> calls reach the controller
  and its job counts for the two nodes drop from 0 to -1.
\<close>

theorem C6_duplicate_completion_releases_again:
  "\<exists>s1 s2 c1 c2.
      run id (init cluster4)
        [(0, SimulationBegins), (1, JobSubmission job_A), (2, JobCompletion done_A)] = Inr s1
    \<and> \<not> job_in done_A (running_jobs s1)
    \<and> onJobCompletion (at_time 3 s1) done_A = Inr s2
    \<and> power_controller s1 = Some c1 \<and> power_controller s2 = Some c2
    \<and> map (\<lambda>(i, nd). job_count nd) (nodes c1) = [0, 0, 0, 0]
    \<and> map (\<lambda>(i, nd). job_count nd) (nodes c2) = [- 1, - 1, 0, 0]
    \<and> pc_calls c2 = pc_calls c1 @ [RemoveJobFromNode_call 0, RemoveJobFromNode_call 1]"
proof -
  let ?evs = "[(0, SimulationBegins), (1, JobSubmission job_A), (2, JobCompletion done_A)]"
  have "case run id (init cluster4) ?evs of
          Inr s1 \<Rightarrow>
            \<not> job_in done_A (running_jobs s1)
            \<and> (case onJobCompletion (at_time 3 s1) done_A of
                 Inr s2 \<Rightarrow>
                   (case (power_controller s1, power_controller s2) of
                      (Some c1, Some c2) \<Rightarrow>
                          map (\<lambda>(i, nd). job_count nd) (nodes c1) = [0, 0, 0, 0]
                        \<and> map (\<lambda>(i, nd). job_count nd) (nodes c2) = [- 1, - 1, 0, 0]
                        \<and> pc_calls c2 = pc_calls c1 @ [RemoveJobFromNode_call 0, RemoveJobFromNode_call 1]
                    | _ \<Rightarrow> False)
               | Inl e \<Rightarrow> False)
        | Inl e \<Rightarrow> False"
    by code_simp
  then show ?thesis
    by (auto split: sum.splits option.splits)
qed

text \<open>
  C7 (idle shutdown). Let \<open>s\<close> be a state reached from a fresh scheduler by the events
  \<open>evs\<close>, and let a periodic tick at time \<open>t\<close> return normally. The tick always records
  the snapshot: the last call the controller received is \<^verbatim>\<open>RecordSystemState\<close> with the
  time, the running set, the waiting queue and the current power. If a job has been
  submitted since the simulation began and both the waiting queue and the running set are
  empty, the tick sends nothing to the engine, so the timer is not re-armed; on every
  other tick it sends exactly \<^verbatim>\<open>wake_me_up_at(t + 60)\<close>, 60 being the record interval.
\<close>

theorem C7_idle_shutdown:
  assumes "run policy (init b) evs = Inr s"
    and "handle policy (at_time t s) RequestedCall = Inr s'"
  shows "(\<exists>c'. power_controller s' = Some c' \<and> pc_calls c' \<noteq> []
            \<and> last (pc_calls c') =
                RecordSystemState_call t (running_jobs s) (waiting_jobs s) (current_power s))
       \<and> bs_calls (bs s') =
           bs_calls (bs s) @
             (if submitted_since_begin False evs \<and> waiting_jobs s = [] \<and> running_jobs s = []
              then [] else [wake_me_up_at (t + 60)])"
proof -
  from run_started [OF assms(1)] have
    st: "simulation_started s = submitted_since_begin False evs" and ri: "record_interval s = 60"
    by (simp_all add: init_def)
  from assms(2) have c: "onRequestedCall policy (at_time t s) = Inr s'" by simp
  then obtain c0 where c0: "power_controller s = Some c0"
    by (auto simp: onRequestedCall_def Let_def at_time_def split: option.splits)
  have 1: "\<exists>c'. power_controller s' = Some c' \<and> pc_calls c' \<noteq> []
            \<and> last (pc_calls c') =
                RecordSystemState_call t (running_jobs s) (waiting_jobs s) (current_power s)"
    using c c0
    by (auto simp: onRequestedCall_def Let_def at_time_def schedule_next_record_def
        RecordSystemState_def pc_called_def split: if_splits)
  have 2: "bs_calls (bs s') =
           bs_calls (bs s) @
             (if simulation_started s \<and> waiting_jobs s = [] \<and> running_jobs s = []
              then [] else [wake_me_up_at (t + record_interval s)])"
    using c c0
    by (auto simp: onRequestedCall_def Let_def at_time_def schedule_next_record_def
        bs_request_def split: if_splits)
  from 1 2 st ri show ?thesis by simp
qed

text \<open>
  After A has run and completed on the four-node cluster the tick at time 60 sends nothing;
  while A still runs, the tick at time 60 asks to be woken at 120.
\<close>

theorem C7_idle_shutdown_witness:
  "(\<exists>s s'. run id (init cluster4) [(0, SimulationBegins), (1, JobSubmission job_A), (2, JobCompletion done_A)] = Inr s
       \<and> handle id (at_time 60 s) RequestedCall = Inr s'
       \<and> bs_calls (bs s') = bs_calls (bs s))
   \<and> (\<exists>s s'. run id (init cluster4) [(0, SimulationBegins), (1, JobSubmission job_A)] = Inr s
       \<and> handle id (at_time 60 s) RequestedCall = Inr s'
       \<and> bs_calls (bs s') = bs_calls (bs s) @ [wake_me_up_at 120])"
proof -
  let ?e1 = "[(0, SimulationBegins), (1, JobSubmission job_A), (2, JobCompletion done_A)]"
  let ?e2 = "[(0, SimulationBegins), (1, JobSubmission job_A)]"
  have "case run id (init cluster4) ?e1 of
          Inr s \<Rightarrow> waiting_jobs s = [] \<and> running_jobs s = []
            \<and> (case handle id (at_time 60 s) RequestedCall of Inr s' \<Rightarrow> True | Inl e \<Rightarrow> False)
        | Inl e \<Rightarrow> False"
    by code_simp
  then obtain s where r1: "run id (init cluster4) ?e1 = Inr s"
    and q1: "waiting_jobs s = []" "running_jobs s = []"
    and k1: "case handle id (at_time 60 s) RequestedCall of Inr s' \<Rightarrow> True | Inl e \<Rightarrow> False"
    by (cases "run id (init cluster4) ?e1") simp_all
  from k1 obtain s' where h1: "handle id (at_time 60 s) RequestedCall = Inr s'"
    by (cases "handle id (at_time 60 s) RequestedCall") simp_all
  have f1: "submitted_since_begin False ?e1" by simp
  from C7_idle_shutdown [OF r1 h1] q1 f1 have a: "bs_calls (bs s') = bs_calls (bs s)" by simp
  have "case run id (init cluster4) ?e2 of
          Inr s \<Rightarrow> running_jobs s \<noteq> []
            \<and> (case handle id (at_time 60 s) RequestedCall of Inr s' \<Rightarrow> True | Inl e \<Rightarrow> False)
        | Inl e \<Rightarrow> False"
    by code_simp
  then obtain u where r2: "run id (init cluster4) ?e2 = Inr u"
    and q2: "running_jobs u \<noteq> []"
    and k2: "case handle id (at_time 60 u) RequestedCall of Inr u' \<Rightarrow> True | Inl e \<Rightarrow> False"
    by (cases "run id (init cluster4) ?e2") simp_all
  from k2 obtain u' where h2: "handle id (at_time 60 u) RequestedCall = Inr u'"
    by (cases "handle id (at_time 60 u) RequestedCall") simp_all
  from C7_idle_shutdown [OF r2 h2] q2 have b: "bs_calls (bs u') = bs_calls (bs u) @ [wake_me_up_at 120]"
    by simp
  from r1 h1 a r2 h2 b show ?thesis by blast
qed

text \<open>
  C8 (guard of the placement pass). With an empty waiting queue \<^verbatim>\<open>try_schedule_jobs\<close>
  returns the scheduler unchanged: no field differs, the controller has received no call
  and the engine no request. With a non-empty queue and no available node it fails with
  the assertion ``No available nodes''. Whenever it fails with an assertion, the queue is
  not empty, the message is that one, and the controller reported no available node.
\<close>

theorem C8_pass_guard:
  "(waiting_jobs s = [] \<longrightarrow> try_schedule_jobs s = Inr s)
   \<and> (waiting_jobs s \<noteq> [] \<and> power_controller s = Some c \<and> fst (GetAvailableNodes c) = []
        \<longrightarrow> try_schedule_jobs s = Inl (AssertionError ''No available nodes''))
   \<and> (try_schedule_jobs s = Inl (AssertionError m)
        \<longrightarrow> waiting_jobs s \<noteq> [] \<and> m = ''No available nodes''
          \<and> (\<exists>c. power_controller s = Some c \<and> fst (GetAvailableNodes c) = []))"
proof (intro conjI impI)
  assume "waiting_jobs s = []"
  then show "try_schedule_jobs s = Inr s" by (simp add: try_schedule_jobs_def)
next
  assume "waiting_jobs s \<noteq> [] \<and> power_controller s = Some c \<and> fst (GetAvailableNodes c) = []"
  then show "try_schedule_jobs s = Inl (AssertionError ''No available nodes'')"
    by (auto simp: try_schedule_jobs_def split: prod.splits)
next
  assume e: "try_schedule_jobs s = Inl (AssertionError m)"
  then show w: "waiting_jobs s \<noteq> []" by (auto simp: try_schedule_jobs_def)
  from e w obtain c where c: "power_controller s = Some c"
    by (auto simp: try_schedule_jobs_def split: option.splits)
  have av: "fst (GetAvailableNodes c) = []"
  proof (rule ccontr)
    assume "fst (GetAvailableNodes c) \<noteq> []"
    from try_schedule_jobs_pass [OF w c this] e show False by auto
  qed
  with c show "\<exists>c. power_controller s = Some c \<and> fst (GetAvailableNodes c) = []" by blast
  from e w c av show "m = ''No available nodes''"
    by (auto simp: try_schedule_jobs_def split: prod.splits)
qed

text \<open>
  The fresh scheduler has an empty queue and is returned as it is; the queue A, B, C on a
  cluster whose four nodes sleep hits the assertion.
\<close>

theorem C8_pass_guard_witness:
  "try_schedule_jobs (init cluster4) = Inr (init cluster4)
   \<and> try_schedule_jobs queued_asleep = Inl (AssertionError ''No available nodes'')
   \<and> waiting_jobs queued_asleep \<noteq> []"
proof -
  have e: "waiting_jobs (init cluster4) = []" by (simp add: init_def)
  let ?c = "\<lparr>nodes = map (\<lambda>i. (i, \<lparr>node_state = SLEEPING, job_count = 0\<rparr>)) [0 ..< 4],
             pc_calls = []\<rparr>"
  have w: "waiting_jobs queued_asleep \<noteq> []" by (simp add: queued_asleep_def queued_ABC_def)
  have c: "power_controller queued_asleep = Some ?c" by (simp add: queued_asleep_def)
  have a: "fst (GetAvailableNodes ?c) = []" by code_simp
  from C8_pass_guard [of "init cluster4"] e have 1: "try_schedule_jobs (init cluster4) = Inr (init cluster4)"
    by blast
  from C8_pass_guard [of queued_asleep ?c] w c a
  have 2: "try_schedule_jobs queued_asleep = Inl (AssertionError ''No available nodes'')" by blast
  from C8_pass_guard [of queued_asleep _ "''No available nodes''"] 2 have "waiting_jobs queued_asleep \<noteq> []"
    by blast
  with 1 2 show ?thesis by blast
qed

text \<open>
  C9 (a rejected submission starts the simulation). Whenever \<^verbatim>\<open>onJobSubmission\<close>
  returns, the flag \<open>simulation_started\<close> is set, also for a rejected job. So a run in
  which the only submitted job is oversized ends the periodic timer: after the simulation
  begins, the job is rejected and a tick arrives, the only request the engine has received
  is the rejection, and no \<^verbatim>\<open>wake_me_up_at\<close>. Without the submission the same tick
  re-arms the timer.
\<close>

theorem C9_rejected_submission_starts:
  "(onJobSubmission s j = Inr s' \<longrightarrow> simulation_started s')
   \<and> (requested_resources j > nb_resources b \<longrightarrow>
        (\<exists>s''. run policy (init b)
                 [(t0, SimulationBegins), (t1, JobSubmission j), (t2, RequestedCall)] = Inr s''
           \<and> simulation_started s'' \<and> waiting_jobs s'' = [] \<and> running_jobs s'' = []
           \<and> bs_calls (bs s'') = bs_calls b @ [reject_jobs [j]]))
   \<and> (\<exists>s''. run policy (init b) [(t0, SimulationBegins), (t2, RequestedCall)] = Inr s''
           \<and> bs_calls (bs s'') = bs_calls b @ [wake_me_up_at (t2 + 60)])"
proof (intro conjI impI)
  assume a: "onJobSubmission s j = Inr s'"
  from onJobSubmission_Inr [OF a] show "simulation_started s'"
  proof
    assume "requested_resources j > nb_resources (bs s)
           \<and> s' = s\<lparr>simulation_started := True, bs := bs_request (reject_jobs [j]) (bs s)\<rparr>"
    then show ?thesis by simp
  next
    assume "requested_resources j \<le> nb_resources (bs s)
           \<and> try_schedule_jobs (s\<lparr>simulation_started := True, waiting_jobs := waiting_jobs s @ [j]\<rparr>) = Inr s'"
    then have "try_schedule_jobs (s\<lparr>simulation_started := True, waiting_jobs := waiting_jobs s @ [j]\<rparr>) = Inr s'"
      by simp
    from try_schedule_jobs_fields(1) [OF this] show ?thesis by simp
  qed
next
  assume "requested_resources j > nb_resources b"
  then show "\<exists>s''. run policy (init b)
                 [(t0, SimulationBegins), (t1, JobSubmission j), (t2, RequestedCall)] = Inr s''
           \<and> simulation_started s'' \<and> waiting_jobs s'' = [] \<and> running_jobs s'' = []
           \<and> bs_calls (bs s'') = bs_calls b @ [reject_jobs [j]]"
    by (simp add: init_def at_time_def onSimulationBegins_def onJobSubmission_def
        onRequestedCall_def Let_def bs_request_def)
next
  show "\<exists>s''. run policy (init b) [(t0, SimulationBegins), (t2, RequestedCall)] = Inr s''
           \<and> bs_calls (bs s'') = bs_calls b @ [wake_me_up_at (t2 + 60)]"
    by (simp add: init_def at_time_def onSimulationBegins_def
        onRequestedCall_def Let_def bs_request_def schedule_next_record_def)
qed

text \<open>
  On the four-node cluster, D asks for 10 nodes: it is rejected, the flag is set, and the
  tick at time 60 leaves the rejection as the only request sent to the engine.
\<close>

theorem C9_rejected_submission_starts_witness:
  "(\<exists>s'. onJobSubmission (onSimulationBegins (init cluster4)) job_D = Inr s' \<and> simulation_started s')
   \<and> (\<exists>s''. run id (init cluster4)
                [(0, SimulationBegins), (1, JobSubmission job_D), (60, RequestedCall)] = Inr s''
          \<and> simulation_started s'' \<and> waiting_jobs s'' = [] \<and> running_jobs s'' = []
          \<and> bs_calls (bs s'') = [reject_jobs [job_D]])"
proof -
  let ?s = "onSimulationBegins (init cluster4)"
  have "case onJobSubmission ?s job_D of Inr s' \<Rightarrow> True | Inl e \<Rightarrow> False" by code_simp
  then obtain s' where a: "onJobSubmission ?s job_D = Inr s'"
    by (cases "onJobSubmission ?s job_D") simp_all
  note t = C9_rejected_submission_starts [where s = "?s" and j = job_D and s' = s' and b = cluster4
      and policy = id and ?t0.0 = 0 and ?t1.0 = 1 and ?t2.0 = 60]
  from t a have 1: "simulation_started s'" by blast
  have "requested_resources job_D > nb_resources cluster4" by (simp add: job_D_def cluster4_def)
  with t have "\<exists>s''. run id (init cluster4)
                [(0, SimulationBegins), (1, JobSubmission job_D), (60, RequestedCall)] = Inr s''
          \<and> simulation_started s'' \<and> waiting_jobs s'' = [] \<and> running_jobs s'' = []
          \<and> bs_calls (bs s'') = bs_calls cluster4 @ [reject_jobs [job_D]]"
    by blast
  then have 2: "\<exists>s''. run id (init cluster4)
                [(0, SimulationBegins), (1, JobSubmission job_D), (60, RequestedCall)] = Inr s''
          \<and> simulation_started s'' \<and> waiting_jobs s'' = [] \<and> running_jobs s'' = []
          \<and> bs_calls (bs s'') = [reject_jobs [job_D]]"
    by (simp add: cluster4_def)
  from a 1 2 show ?thesis by blast
qed

text \<open>
  C10 (allocations within one pass). When \<^verbatim>\<open>try_schedule_jobs\<close> returns, the jobs it
  has appended to the running set are the batch it sends to the engine with
  \<^verbatim>\<open>execute_jobs\<close> (nothing is sent for an empty batch); each of them has been given
  an allocation, these allocations are pairwise disjoint, and each lies within the nodes
  the controller reported available at the start of the pass.
\<close>

theorem C10_pass_allocations_disjoint:
  assumes "try_schedule_jobs s = Inr s'"
  shows "\<exists>batch. running_jobs s' = running_jobs s @ batch
       \<and> bs_calls (bs s') = bs_calls (bs s) @ (if batch = [] then [] else [execute_jobs batch])
       \<and> pairwise_disjoint (map allocated_nodes batch)
       \<and> (\<forall>j \<in> set batch. \<exists>c. power_controller s = Some c
             \<and> allocation j \<noteq> None
             \<and> set (allocated_nodes j) \<subseteq> set (fst (GetAvailableNodes c)))"
  using assms by (rule try_schedule_jobs_batch)

text \<open>
  The pass on the queue A, B, C of the idle four-node cluster places A on nodes 0 and 1
  and C on node 2.
\<close>

theorem C10_pass_allocations_disjoint_witness:
  "\<exists>s' batch. try_schedule_jobs queued_ABC = Inr s'
      \<and> running_jobs s' = running_jobs queued_ABC @ batch
      \<and> map allocated_nodes batch = [[0, 1], [2]]
      \<and> pairwise_disjoint (map allocated_nodes batch)"
proof -
  have "case try_schedule_jobs queued_ABC of
          Inr s' \<Rightarrow> map allocated_nodes (running_jobs s') = [[0, 1], [2]] | Inl e \<Rightarrow> False"
    by code_simp
  then obtain s' where t: "try_schedule_jobs queued_ABC = Inr s'"
    and a: "map allocated_nodes (running_jobs s') = [[0, 1], [2]]"
    by (cases "try_schedule_jobs queued_ABC") simp_all
  have r0: "running_jobs queued_ABC = []"
    by (simp add: queued_ABC_def onSimulationBegins_def init_def)
  from C10_pass_allocations_disjoint [OF t] obtain batch where
    "running_jobs s' = running_jobs queued_ABC @ batch" "pairwise_disjoint (map allocated_nodes batch)"
    by blast
  with t a r0 show ?thesis by auto
qed

end
